theory Spec2Isabelle
  imports Main "HOL-Library.Sublist"
begin

section \<open>Texts and the library functions the program calls\<close>

text \<open>
  A Go string is a sequence of bytes, and \<open>len\<close> counts bytes; it is modelled by
  \<^typ>\<open>string\<close>. Text outside ASCII is written as its UTF-8 bytes.
\<close>

subsection \<open>strconv.Atoi\<close>

definition isDigit :: "char \<Rightarrow> bool" where
  "isDigit c = (48 \<le> (of_char c :: nat) \<and> (of_char c :: nat) \<le> 57)"

fun decimal :: "int \<Rightarrow> string \<Rightarrow> int" where
  "decimal n [] = n"
| "decimal n (c # cs) = decimal (n * 10 + (int (of_char c) - 48)) cs"

text \<open>
  \<open>strconv.Atoi\<close> on a 64-bit platform: an optional sign, then one or more decimal
  digits and nothing else; a value outside the range of \<open>int\<close> is an error as well.
  \<open>None\<close> stands for a non-nil error.
\<close>

definition Atoi :: "string \<Rightarrow> int option" where
  "Atoi s =
     (let neg = (s \<noteq> [] \<and> hd s = CHR ''-'');
          ds = (if s \<noteq> [] \<and> (hd s = CHR ''-'' \<or> hd s = CHR ''+'') then tl s else s)
      in if ds = [] \<or> \<not> list_all isDigit ds then None
         else let n = (if neg then - decimal 0 ds else decimal 0 ds)
              in if - (2 ^ 63) \<le> n \<and> n < 2 ^ 63 then Some n else None)"

subsection \<open>fmt.Sprintf with the verb d\<close>

definition digitChar :: "nat \<Rightarrow> char" where
  "digitChar d = ''0123456789'' ! d"

function itoa :: "nat \<Rightarrow> string" where
  "itoa n = (if n < 10 then [digitChar n] else itoa (n div 10) @ [digitChar (n mod 10)])"
  by pat_completeness auto
termination
  by (relation "measure id") auto

declare itoa.simps [simp del]

subsection \<open>strings.Join, strings.Repeat, strings.Contains, strings.Split\<close>

fun Join :: "string list \<Rightarrow> string \<Rightarrow> string" where
  "Join [] sep = []"
| "Join [x] sep = x"
| "Join (x # y # ys) sep = x @ sep @ Join (y # ys) sep"

definition Repeat :: "string \<Rightarrow> nat \<Rightarrow> string" where
  "Repeat s n = concat (replicate n s)"

fun Contains :: "string \<Rightarrow> string \<Rightarrow> bool" where
  "Contains [] substr = (substr = [])"
| "Contains (c # cs) substr = (prefix substr (c # cs) \<or> Contains cs substr)"

function splitFrom :: "string \<Rightarrow> string \<Rightarrow> string \<Rightarrow> string list" where
  "splitFrom sep piece s =
     (if s = [] then [piece]
      else if sep \<noteq> [] \<and> prefix sep s then piece # splitFrom sep [] (drop (length sep) s)
      else splitFrom sep (piece @ [hd s]) (tl s))"
  by pat_completeness auto
termination
  by (relation "measure (\<lambda>(sep, piece, s). length s)") auto

declare splitFrom.simps [simp del]

text \<open>
  \<open>strings.Split\<close>. The program only splits on a constant, non-empty separator; the
  empty separator, which explodes a text into its UTF-8 sequences, is written here for
  bytes.
\<close>

definition Split :: "string \<Rightarrow> string \<Rightarrow> string list" where
  "Split s sep = (if sep = [] then map (\<lambda>c. [c]) s else splitFrom sep [] s)"

subsection \<open>The white list\<close>

text \<open>
  The regular expression \<open>whiteListRegex\<close> is anchored at both ends and is one character
  class, repeated at least once: the Latin letters, the Cyrillic letters U+0410 to U+044F,
  U+0451 and U+0401, the digits, the white space of the class \<open>\s\<close> (tab, line feed, form
  feed, carriage return, space), the hyphen and the period. The matcher reads the text
  rune by rune; a byte below 128 is a rune of its own, and the Cyrillic letters are the
  two-byte sequences D0 90..BF, D1 80..8F, D1 91 and D0 81. Any other sequence decodes
  to a rune outside the class, so the match fails there.
\<close>

definition asciiAllowed :: "char \<Rightarrow> bool" where
  "asciiAllowed c =
     (let n = (of_char c :: nat)
      in (97 \<le> n \<and> n \<le> 122) \<or> (65 \<le> n \<and> n \<le> 90) \<or> (48 \<le> n \<and> n \<le> 57)
         \<or> n = 9 \<or> n = 10 \<or> n = 12 \<or> n = 13 \<or> n = 32 \<or> n = 45 \<or> n = 46)"

definition cyrillic :: "char \<Rightarrow> char \<Rightarrow> bool" where
  "cyrillic c d =
     (let m = (of_char c :: nat); n = (of_char d :: nat)
      in (m = 208 \<and> ((144 \<le> n \<and> n \<le> 191) \<or> n = 129))
         \<or> (m = 209 \<and> ((128 \<le> n \<and> n \<le> 143) \<or> n = 145)))"

fun allowedRunes :: "string \<Rightarrow> bool" where
  "allowedRunes [] = True"
| "allowedRunes [c] = asciiAllowed c"
| "allowedRunes (c # d # cs) =
     (if (of_char c :: nat) < 128 then asciiAllowed c \<and> allowedRunes (d # cs)
      else cyrillic c d \<and> allowedRunes cs)"

definition MatchString :: "string \<Rightarrow> bool" where
  "MatchString s = (s \<noteq> [] \<and> allowedRunes s)"

section \<open>The static catalog\<close>

record TableInfo =
  Name :: string
  Columns :: "string list"

text \<open>The tables set by \<open>loadTableInfo\<close>.\<close>

definition tables :: "TableInfo list" where
  "tables =
     [\<lparr>Name = ''categories'', Columns = [''id'', ''name'', ''description'']\<rparr>,
      \<lparr>Name = ''manufacturers'', Columns = [''id'', ''name'', ''country'', ''founded_year'']\<rparr>,
      \<lparr>Name = ''components'',
        Columns = [''id'', ''name'', ''category_id'', ''manufacturer_id'', ''model'', ''price'']\<rparr>,
      \<lparr>Name = ''stock'', Columns = [''id'', ''component_id'', ''quantity'', ''warehouse_location'']\<rparr>]"

text \<open>
  The separator of the two table names of a relation: a space, the Cyrillic letter
  U+0438 (bytes D0 B8) and a space.
\<close>

definition relationSep :: string where
  "relationSep = [CHR '' '', CHR 0xD0, CHR 0xB8, CHR '' '']"

text \<open>The relations set by \<open>main\<close>, in the order of the menu.\<close>

definition relatedTables :: "string list" where
  "relatedTables =
     [''components'' @ relationSep @ ''stock'',
      ''categories'' @ relationSep @ ''components'',
      ''manufacturers'' @ relationSep @ ''components'']"

section \<open>The relation resolver (insertRelatedData)\<close>

text \<open>The zero value of the struct, which \<open>table1\<close> and \<open>table2\<close> hold before the search.\<close>

definition zeroTable :: TableInfo where
  "zeroTable = \<lparr>Name = [], Columns = []\<rparr>"

text \<open>The loop over \<open>tables\<close> that finds the two tables of the relation.\<close>

fun findTables :: "TableInfo list \<Rightarrow> string list \<Rightarrow> TableInfo \<Rightarrow> TableInfo \<Rightarrow> TableInfo \<times> TableInfo" where
  "findTables [] tablesInRelation table1 table2 = (table1, table2)"
| "findTables (t # ts) tablesInRelation table1 table2 =
     findTables ts tablesInRelation
       (if Name t = tablesInRelation ! 0 then t else table1)
       (if Name t = tablesInRelation ! 1 then t else table2)"

text \<open>
  Splitting the chosen relation; \<open>None\<close> is the return after the message that the
  format of the relation is wrong.
\<close>

definition relationTables :: "string \<Rightarrow> (TableInfo \<times> TableInfo) option" where
  "relationTables relation =
     (let tablesInRelation = Split relation relationSep
      in if length tablesInRelation \<noteq> 2 then None
         else Some (findTables tables tablesInRelation zeroTable zeroTable))"

text \<open>
  The first loop over the columns of the second table: the explicit rules. The result
  is the empty text when no rule matched, as \<open>foreignKeyColumn\<close> is in the source.
\<close>

fun explicitForeignKey :: "TableInfo \<Rightarrow> TableInfo \<Rightarrow> string list \<Rightarrow> string" where
  "explicitForeignKey table1 table2 [] = []"
| "explicitForeignKey table1 table2 (column # columns) =
     (if column = ''component_id'' \<or> column = ''category_id'' \<or> column = ''manufacturer_id'' then
        (if Contains (Name table2) ''stock'' \<and> Name table1 = ''components''
            \<and> column = ''component_id'' then column
         else if Contains (Name table2) ''components'' then
           (if Name table1 = ''categories'' \<and> column = ''category_id'' then column
            else if Name table1 = ''manufacturers'' \<and> column = ''manufacturer_id'' then column
            else explicitForeignKey table1 table2 columns)
         else explicitForeignKey table1 table2 columns)
      else explicitForeignKey table1 table2 columns)"

text \<open>The second loop: the first column that is not \<open>id\<close>.\<close>

fun fallbackForeignKey :: "string list \<Rightarrow> string" where
  "fallbackForeignKey [] = []"
| "fallbackForeignKey (column # columns) =
     (if column \<noteq> ''id'' then column else fallbackForeignKey columns)"

definition foreignKeyColumn :: "TableInfo \<Rightarrow> TableInfo \<Rightarrow> string" where
  "foreignKeyColumn table1 table2 =
     (let fk = explicitForeignKey table1 table2 (Columns table2)
      in if fk = [] then fallbackForeignKey (Columns table2) else fk)"

section \<open>The console, the database and the trace of a run\<close>

text \<open>
  The program talks to an operator and to a database. A run is modelled over a
  \<open>world\<close>: the lines the operator will still type, the answers the database will
  still give, and the trace of what the program has done so far, in order.

  \<^item> A line of \<open>stdin\<close> is the text \<open>strings.TrimSpace\<close> returns for it. At the end of
    the input \<open>ReadString\<close> returns the empty text and an error that the program
    ignores.
  \<^item> The database answers each call with the next element of \<open>db\<close>; a call that finds
    no answer left, or an answer of another shape than the call expects, has failed.
    A value of a result row is \<open>None\<close> for NULL and otherwise the text that the verb
    \<open>v\<close> prints for it.
  \<^item> The trace holds the statements sent to the database and the console output that
    carries data. Banners, menus and the log file are left out; a log message that is
    also echoed on the console is no event of its own.
\<close>

datatype error =
    InvalidMenuChoice   \<comment> \<open>a menu, table, column or relation choice out of range\<close>
  | InvalidCount        \<comment> \<open>a count that is not a number above 0\<close>
  | InvalidCharacters   \<comment> \<open>the value does not match the white list\<close>
  | NotANumber string   \<comment> \<open>the field must be a number\<close>
  | IdNotANumber        \<comment> \<open>the row identifier must be a number\<close>
  | ExecutionError      \<comment> \<open>the database reported an error\<close>
  | RelationFormat      \<comment> \<open>the relation does not name two tables\<close>

datatype param = PStr string | PInt int

datatype callkind = Query | Exec | QueryRow

datatype dbresp =
    DbError
  | DbRows "string list" "string option list list"
  | DbAffected int
  | DbId int

datatype event =
    Prompt string                 \<comment> \<open>asks for the value of a column\<close>
  | AskId nat                     \<comment> \<open>asks for the n-th row identifier\<close>
  | Report error
  | DbCall callkind string "param list"
  | Println string                \<comment> \<open>a line of the rendered grid\<close>
  | Found nat                     \<comment> \<open>the number of records found\<close>
  | NoRecords
  | NoUpdatableColumns
  | Updated int                   \<comment> \<open>the number of rows updated\<close>
  | Added nat                     \<comment> \<open>the n-th record was added\<close>
  | TotalAdded nat                     \<comment> \<open>the number of records added\<close>
  | Inserted string int           \<comment> \<open>the table of the first insert and the returned id\<close>
  | ForeignKey string string int  \<comment> \<open>second table, foreign-key column, id\<close>
  | AutoSet string int            \<comment> \<open>the column set without a prompt, and its value\<close>
  | AddedRelated string           \<comment> \<open>the second insert succeeded\<close>

record world =
  stdin :: "string list"
  db :: "dbresp list"
  out :: "event list"

datatype proc = Running | Exited int | Panicked

definition say :: "event \<Rightarrow> world \<Rightarrow> world" where
  "say e w = w\<lparr>out := out w @ [e]\<rparr>"

definition readLine :: "world \<Rightarrow> string \<times> world" where
  "readLine w = (case stdin w of [] \<Rightarrow> ([], w) | l # ls \<Rightarrow> (l, w\<lparr>stdin := ls\<rparr>))"

definition answer :: "world \<Rightarrow> dbresp \<times> world" where
  "answer w = (case db w of [] \<Rightarrow> (DbError, w) | r # rs \<Rightarrow> (r, w\<lparr>db := rs\<rparr>))"

definition dbQuery :: "string \<Rightarrow> param list \<Rightarrow> world \<Rightarrow> (string list \<times> string option list list) option \<times> world" where
  "dbQuery query args w =
     (let (r, w1) = answer (say (DbCall Query query args) w)
      in (case r of DbRows columns rows \<Rightarrow> Some (columns, rows) | _ \<Rightarrow> None, w1))"

definition dbExec :: "string \<Rightarrow> param list \<Rightarrow> world \<Rightarrow> int option \<times> world" where
  "dbExec query args w =
     (let (r, w1) = answer (say (DbCall Exec query args) w)
      in (case r of DbAffected n \<Rightarrow> Some n | _ \<Rightarrow> None, w1))"

definition dbQueryRow :: "string \<Rightarrow> param list \<Rightarrow> world \<Rightarrow> int option \<times> world" where
  "dbQueryRow query args w =
     (let (r, w1) = answer (say (DbCall QueryRow query args) w)
      in (case r of DbId n \<Rightarrow> Some n | _ \<Rightarrow> None, w1))"

text \<open>The statements sent to the database so far, in order.\<close>

fun sent :: "event list \<Rightarrow> (callkind \<times> string \<times> param list) list" where
  "sent [] = []"
| "sent (DbCall k q ps # es) = (k, q, ps) # sent es"
| "sent (e # es) = sent es"

section \<open>Choosing a table or a column\<close>

definition selectTable :: "world \<Rightarrow> int \<times> world" where
  "selectTable w =
     (let (input, w1) = readLine w
      in case Atoi input of
           None \<Rightarrow> (- 1, say (Report InvalidMenuChoice) w1)
         | Some choice \<Rightarrow>
             if choice < 0 \<or> choice > int (length tables)
             then (- 1, say (Report InvalidMenuChoice) w1)
             else if choice = 0 then (- 1, w1)
             else (choice - 1, w1))"

definition selectColumn :: "TableInfo \<Rightarrow> world \<Rightarrow> int \<times> world" where
  "selectColumn table w =
     (let (input, w1) = readLine w
      in case Atoi input of
           None \<Rightarrow> (- 1, say (Report InvalidMenuChoice) w1)
         | Some choice \<Rightarrow>
             if choice < 0 \<or> choice > int (length (Columns table))
             then (- 1, say (Report InvalidMenuChoice) w1)
             else if choice = 0 then (- 1, w1)
             else (choice - 1, w1))"

section \<open>Rendering a result set (viewTable and filterData)\<close>

text \<open>
  Both operations hold the same code for the widths of the columns and for the lines
  of the grid; it is written once here.
\<close>

definition padRight :: "string \<Rightarrow> nat \<Rightarrow> string" where
  "padRight str len =
     (if length str \<ge> len then take len str
      else str @ Repeat '' '' (len - length str))"

definition cellText :: "string option \<Rightarrow> string" where
  "cellText val = (case val of None \<Rightarrow> [] | Some str \<Rightarrow> str)"

text \<open>One pass over a row (or over the headers): a longer text widens its column.\<close>

definition widen :: "string list \<Rightarrow> nat list \<Rightarrow> nat list" where
  "widen strs columnWidths =
     map (\<lambda>(str, width). if length str > width then length str else width) (zip strs columnWidths)"

definition headerWidths :: "string list \<Rightarrow> nat list" where
  "headerWidths columns = widen columns (replicate (length columns) 0)"

text \<open>
  The loop over \<open>rows.Next()\<close>. \<open>Scan\<close> fails on a row that has not one value for each
  destination, and the loop goes on with the next row (\<open>viewTable\<close> writes the failure
  to the log first).
\<close>

fun readRows :: "nat \<Rightarrow> string option list list \<Rightarrow> nat list \<Rightarrow> string list list \<Rightarrow> nat list \<times> string list list" where
  "readRows n [] columnWidths allRows = (columnWidths, allRows)"
| "readRows n (vals # rows) columnWidths allRows =
     (if length vals \<noteq> n then readRows n rows columnWidths allRows
      else let rowData = map cellText vals
           in readRows n rows (widen rowData columnWidths) (allRows @ [rowData]))"

definition padAll :: "string list \<Rightarrow> nat list \<Rightarrow> string list" where
  "padAll cells columnWidths = map (\<lambda>(cell, width). padRight cell width) (zip cells columnWidths)"

definition headerLine :: "string list \<Rightarrow> nat list \<Rightarrow> string" where
  "headerLine columns columnWidths = CHR 0x0A # Join (padAll columns columnWidths) '' | ''"

definition dividerLine :: "nat list \<Rightarrow> string" where
  "dividerLine columnWidths = Join (map (\<lambda>width. Repeat ''-'' width) columnWidths) ''-+-''"

definition rowLine :: "string list \<Rightarrow> nat list \<Rightarrow> string" where
  "rowLine rowData columnWidths = Join (padAll rowData columnWidths) '' | ''"

fun printRows :: "string list list \<Rightarrow> nat list \<Rightarrow> world \<Rightarrow> world" where
  "printRows [] columnWidths w = w"
| "printRows (rowData # allRows) columnWidths w =
     printRows allRows columnWidths (say (Println (rowLine rowData columnWidths)) w)"

definition printGrid :: "string list \<Rightarrow> nat list \<Rightarrow> string list list \<Rightarrow> world \<Rightarrow> world" where
  "printGrid columns columnWidths allRows w =
     printRows allRows columnWidths
       (say (Println (dividerLine columnWidths))
          (say (Println (headerLine columns columnWidths)) w))"

section \<open>Item 1: viewTable\<close>

text \<open>
  The loop of \<open>viewTable\<close> asks again after a wrong choice and after a failed query, so
  it need not return: \<open>None\<close> is a run that stays in the loop for ever. The query is
  sent a second time after the rows were read, its error is dropped, and
  \<open>rows.Close\<close> is deferred on the result: when the second query failed, \<open>rows\<close> is nil
  and the deferred call panics as the function returns.
\<close>

partial_function (option) viewTable :: "world \<Rightarrow> (proc \<times> world) option" where
  "viewTable w =
     (let (input, w1) = readLine w
      in case Atoi input of
           None \<Rightarrow> viewTable (say (Report InvalidMenuChoice) w1)
         | Some choice \<Rightarrow>
             if choice < 0 \<or> choice > int (length tables)
             then viewTable (say (Report InvalidMenuChoice) w1)
             else if choice = 0 then Some (Running, w1)
             else
               let tableName = Name (tables ! nat (choice - 1));
                   query = ''SELECT * FROM '' @ tableName @ '' ORDER BY id'';
                   (r, w2) = dbQuery query [] w1
               in (case r of
                     None \<Rightarrow> viewTable (say (Report ExecutionError) w2)
                   | Some (columns, rows) \<Rightarrow>
                       let (columnWidths, allRows) =
                             readRows (length columns) rows (headerWidths columns) [];
                           (r2, w3) = dbQuery query [] w2;
                           w4 = printGrid columns columnWidths allRows w3;
                           w5 = say (Found (length allRows)) w4
                       in Some (if r2 = None then Panicked else Running, w5)))"

declare viewTable.simps [code]

section \<open>Item 2: filterData\<close>

text \<open>The check of a value to filter by: the white list only.\<close>

definition filterCheck :: "string \<Rightarrow> error option" where
  "filterCheck val = (if \<not> MatchString val then Some InvalidCharacters else None)"

text \<open>
  The loop over the filters: it returns early (\<open>None\<close>) when no column was chosen or
  when the value fails its check, and otherwise appends one condition and one value.
\<close>

function filterLoop :: "nat \<Rightarrow> nat \<Rightarrow> TableInfo \<Rightarrow> string list \<Rightarrow> param list \<Rightarrow> world
    \<Rightarrow> (string list \<times> param list) option \<times> world" where
  "filterLoop i filterCount table conditions vals w =
     (if i < filterCount then
        (let (columnIndex, w1) = selectColumn table w
         in if columnIndex = - 1 then (None, w1)
            else
              let columnName = Columns table ! nat columnIndex;
                  (val, w2) = readLine (say (Prompt columnName) w1)
              in (case filterCheck val of
                    Some e \<Rightarrow> (None, say (Report e) w2)
                  | None \<Rightarrow>
                      filterLoop (i + 1) filterCount table
                        (conditions @ [columnName @ '' = $'' @ itoa (i + 1)])
                        (vals @ [PStr val]) w2))
      else (Some (conditions, vals), w))"
  by pat_completeness auto
termination
  by (relation "measure (\<lambda>(i, filterCount, table, conditions, vals, w). filterCount - i)") auto

declare filterLoop.simps [simp del]

definition filterData :: "world \<Rightarrow> world" where
  "filterData w =
     (let (input, w1) = readLine w
      in case Atoi input of
           None \<Rightarrow> say (Report InvalidCount) w1
         | Some filterCount \<Rightarrow>
             if filterCount < 1 then say (Report InvalidCount) w1
             else
               let (tableIndex, w2) = selectTable w1
               in if tableIndex = - 1 then w2
                  else
                    let table = tables ! nat tableIndex
                    in (case filterLoop 0 (nat filterCount) table [] [] w2 of
                          (None, w3) \<Rightarrow> w3
                        | (Some (conditions, vals), w3) \<Rightarrow>
                            let query = ''SELECT * FROM '' @ Name table @ '' WHERE ''
                                          @ Join conditions '' AND '' @ '' ORDER BY id'';
                                (r, w4) = dbQuery query vals w3
                            in (case r of
                                  None \<Rightarrow> say (Report ExecutionError) w4
                                | Some (columns, rows) \<Rightarrow>
                                    let (columnWidths, allRows) =
                                          readRows (length columns) rows (headerWidths columns) []
                                    in if length allRows = 0 then say NoRecords w4
                                       else say (Found (length allRows))
                                              (printGrid columns columnWidths allRows w4))))"

section \<open>Item 3: updateData\<close>

text \<open>The checks of the new value: the white list, then the number for a numeric column.\<close>

definition updateCheck :: "string \<Rightarrow> string \<Rightarrow> error option" where
  "updateCheck columnName newValue =
     (if \<not> MatchString newValue then Some InvalidCharacters
      else if (columnName = ''price'' \<or> columnName = ''quantity'' \<or> columnName = ''founded_year''
               \<or> columnName = ''category_id'' \<or> columnName = ''manufacturer_id''
               \<or> columnName = ''component_id'') \<and> Atoi newValue = None
      then Some (NotANumber columnName)
      else None)"

text \<open>The loop that reads the row identifiers; \<open>None\<close> is the return at one that is no number.\<close>

function readIds :: "nat \<Rightarrow> nat \<Rightarrow> string list \<Rightarrow> world \<Rightarrow> string list option \<times> world" where
  "readIds i updateCount ids w =
     (if i < updateCount then
        (let (idInput, w1) = readLine (say (AskId (i + 1)) w)
         in if Atoi idInput = None then (None, say (Report IdNotANumber) w1)
            else readIds (i + 1) updateCount (ids @ [idInput]) w1)
      else (Some ids, w))"
  by pat_completeness auto
termination
  by (relation "measure (\<lambda>(i, updateCount, ids, w). updateCount - i)") auto

declare readIds.simps [simp del]

text \<open>The statement and its arguments, built from the choices that passed the checks.\<close>

definition updateStatement :: "TableInfo \<Rightarrow> string \<Rightarrow> string \<Rightarrow> int \<Rightarrow> string list \<Rightarrow> string \<times> param list" where
  "updateStatement table columnName newValue updateCount ids =
     (if updateCount = 1 then
        (''UPDATE '' @ Name table @ '' SET '' @ columnName @ '' = $1 WHERE id = $2'',
         [PStr newValue, PStr (ids ! 0)])
      else
        (let placeholders = map (\<lambda>i. ''$'' @ itoa (i + 2)) [0..<length ids];
             args = PStr newValue # map PStr ids
         in (''UPDATE '' @ Name table @ '' SET '' @ columnName @ '' = $1 WHERE id IN (''
               @ Join placeholders '', '' @ '')'', args)))"

definition updateData :: "world \<Rightarrow> world" where
  "updateData w =
     (let (input, w1) = readLine w
      in case Atoi input of
           None \<Rightarrow> say (Report InvalidCount) w1
         | Some updateCount \<Rightarrow>
             if updateCount < 1 then say (Report InvalidCount) w1
             else
               let (tableIndex, w2) = selectTable w1
               in if tableIndex = - 1 then w2
                  else
                    let table = tables ! nat tableIndex;
                        updatableColumns = filter (\<lambda>column. column \<noteq> ''id'') (Columns table)
                    in if length updatableColumns = 0 then say NoUpdatableColumns w2
                       else
                         (case readIds 0 (nat updateCount) [] w2 of
                            (None, w3) \<Rightarrow> w3
                          | (Some ids, w3) \<Rightarrow>
                              let (columnInput, w4) = readLine w3
                              in (case Atoi columnInput of
                                    None \<Rightarrow> say (Report InvalidMenuChoice) w4
                                  | Some columnChoice \<Rightarrow>
                                      if columnChoice < 0
                                         \<or> columnChoice > int (length updatableColumns)
                                      then say (Report InvalidMenuChoice) w4
                                      else if columnChoice = 0 then w4
                                      else
                                        let columnName = updatableColumns ! nat (columnChoice - 1);
                                            (newValue, w5) = readLine (say (Prompt columnName) w4)
                                        in (case updateCheck columnName newValue of
                                              Some e \<Rightarrow> say (Report e) w5
                                            | None \<Rightarrow>
                                                let (query, args) =
                                                      updateStatement table columnName newValue
                                                        updateCount ids;
                                                    (r, w6) = dbExec query args w5
                                                in (case r of
                                                      None \<Rightarrow> say (Report ExecutionError) w6
                                                    | Some rowsAffected \<Rightarrow>
                                                        say (Updated rowsAffected) w6)))))"

section \<open>Item 4: insertData\<close>

text \<open>The checks of a value: the white list, then the number for a numeric column.\<close>

definition insertCheck :: "string \<Rightarrow> string \<Rightarrow> error option" where
  "insertCheck column val =
     (if \<not> MatchString val then Some InvalidCharacters
      else if (column = ''price'' \<or> column = ''quantity'' \<or> column = ''founded_year''
               \<or> column = ''category_id'' \<or> column = ''manufacturer_id''
               \<or> column = ''component_id'') \<and> Atoi val = None
      then Some (NotANumber column)
      else None)"

text \<open>The loop over the columns of one record; it returns early at a value that fails.\<close>

fun readValues :: "string list \<Rightarrow> param list \<Rightarrow> world \<Rightarrow> param list option \<times> world" where
  "readValues [] vals w = (Some vals, w)"
| "readValues (column # columns) vals w =
     (let (val, w1) = readLine (say (Prompt column) w)
      in case insertCheck column val of
           Some e \<Rightarrow> (None, say (Report e) w1)
         | None \<Rightarrow> readValues columns (vals @ [PStr val]) w1)"

definition insertStatement :: "TableInfo \<Rightarrow> string list \<Rightarrow> string" where
  "insertStatement table insertColumns =
     (let placeholders = map (\<lambda>j. ''$'' @ itoa (j + 1)) [0..<length insertColumns]
      in ''INSERT INTO '' @ Name table @ '' ('' @ Join insertColumns '', '' @ '') VALUES (''
           @ Join placeholders '', '' @ '')'')"

text \<open>The loop over the records; the result tells whether it ran to its end.\<close>

function insertLoop :: "nat \<Rightarrow> nat \<Rightarrow> TableInfo \<Rightarrow> string list \<Rightarrow> world \<Rightarrow> bool \<times> world" where
  "insertLoop i recordCount table insertColumns w =
     (if i < recordCount then
        (case readValues insertColumns [] w of
           (None, w1) \<Rightarrow> (False, w1)
         | (Some vals, w1) \<Rightarrow>
             let query = insertStatement table insertColumns;
                 (r, w2) = dbExec query vals w1
             in (case r of
                   None \<Rightarrow> (False, say (Report ExecutionError) w2)
                 | Some n \<Rightarrow> insertLoop (i + 1) recordCount table insertColumns
                              (say (Added (i + 1)) w2)))
      else (True, w))"
  by pat_completeness auto
termination
  by (relation "measure (\<lambda>(i, recordCount, table, insertColumns, w). recordCount - i)") auto

declare insertLoop.simps [simp del]

text \<open>
  \<open>Columns[1:]\<close> panics on an empty slice; every table of the catalog has columns, and
  the operations only reach this point with a table of the catalog.
\<close>

definition insertData :: "world \<Rightarrow> world" where
  "insertData w =
     (let (input, w1) = readLine w
      in case Atoi input of
           None \<Rightarrow> say (Report InvalidCount) w1
         | Some recordCount \<Rightarrow>
             if recordCount < 1 then say (Report InvalidCount) w1
             else
               let (tableIndex, w2) = selectTable w1
               in if tableIndex = - 1 then w2
                  else
                    let table = tables ! nat tableIndex;
                        insertColumns = tl (Columns table);
                        (completed, w3) = insertLoop 0 (nat recordCount) table insertColumns w2
                    in if completed then say (TotalAdded (nat recordCount)) w3 else w3)"

section \<open>Item 5: insertRelatedData\<close>

text \<open>The checks of a value for the first table, with their own list of numeric columns.\<close>

definition firstCheck :: "string \<Rightarrow> string \<Rightarrow> error option" where
  "firstCheck column val =
     (if \<not> MatchString val then Some InvalidCharacters
      else if (column = ''price'' \<or> column = ''founded_year'' \<or> column = ''category_id''
               \<or> column = ''manufacturer_id'') \<and> Atoi val = None
      then Some (NotANumber column)
      else None)"

text \<open>The checks of a value for the second table: two numeric columns.\<close>

definition secondCheck :: "string \<Rightarrow> string \<Rightarrow> error option" where
  "secondCheck column val =
     (if \<not> MatchString val then Some InvalidCharacters
      else if (column = ''quantity'' \<or> column = ''price'') \<and> Atoi val = None
      then Some (NotANumber column)
      else None)"

text \<open>The loop over the columns of the first table.\<close>

fun readFirst :: "string list \<Rightarrow> param list \<Rightarrow> world \<Rightarrow> param list option \<times> world" where
  "readFirst [] vals w = (Some vals, w)"
| "readFirst (column # columns) vals w =
     (let (val, w1) = readLine (say (Prompt column) w)
      in case firstCheck column val of
           Some e \<Rightarrow> (None, say (Report e) w1)
         | None \<Rightarrow> readFirst columns (vals @ [PStr val]) w1)"

text \<open>
  The loop over the columns of the second table: the foreign-key column takes the
  returned id without a prompt, every other column is asked for.
\<close>

fun readSecond :: "string \<Rightarrow> int \<Rightarrow> string list \<Rightarrow> param list \<Rightarrow> world \<Rightarrow> param list option \<times> world" where
  "readSecond fk insertedID [] vals w = (Some vals, w)"
| "readSecond fk insertedID (column # columns) vals w =
     (if column = fk
      then readSecond fk insertedID columns (vals @ [PInt insertedID])
             (say (AutoSet column insertedID) w)
      else
        let (val, w1) = readLine (say (Prompt column) w)
        in (case secondCheck column val of
              Some e \<Rightarrow> (None, say (Report e) w1)
            | None \<Rightarrow> readSecond fk insertedID columns (vals @ [PStr val]) w1))"

definition insertReturningStatement :: "TableInfo \<Rightarrow> string list \<Rightarrow> string" where
  "insertReturningStatement table insertColumns =
     (let placeholders = map (\<lambda>j. ''$'' @ itoa (j + 1)) [0..<length insertColumns]
      in ''INSERT INTO '' @ Name table @ '' ('' @ Join insertColumns '', '' @ '') VALUES (''
           @ Join placeholders '', '' @ '') RETURNING id'')"

text \<open>
  One pass of the loop over the records: the insert into the first table, the foreign
  key, the insert into the second table. The result tells whether the pass reached its
  end; every early return of the source gives \<open>False\<close>.
\<close>

definition relatedRecord :: "TableInfo \<Rightarrow> TableInfo \<Rightarrow> world \<Rightarrow> bool \<times> world" where
  "relatedRecord table1 table2 w =
     (let insertColumns1 = tl (Columns table1)
      in case readFirst insertColumns1 [] w of
           (None, w1) \<Rightarrow> (False, w1)
         | (Some values1, w1) \<Rightarrow>
             let query1 = insertReturningStatement table1 insertColumns1;
                 (r, w2) = dbQueryRow query1 values1 w1
             in (case r of
                   None \<Rightarrow> (False, say (Report ExecutionError) w2)
                 | Some insertedID \<Rightarrow>
                     let w3 = say (Inserted (Name table1) insertedID) w2;
                         fk = foreignKeyColumn table1 table2;
                         w4 = say (ForeignKey (Name table2) fk insertedID) w3;
                         insertColumns2 = tl (Columns table2)
                     in (case readSecond fk insertedID insertColumns2 [] w4 of
                           (None, w5) \<Rightarrow> (False, w5)
                         | (Some values2, w5) \<Rightarrow>
                             let query2 = insertStatement table2 insertColumns2;
                                 (r2, w6) = dbExec query2 values2 w5
                             in (case r2 of
                                   None \<Rightarrow> (False, say (Report ExecutionError) w6)
                                 | Some n \<Rightarrow> (True, say (AddedRelated (Name table2)) w6)))))"

function relatedLoop :: "nat \<Rightarrow> nat \<Rightarrow> TableInfo \<Rightarrow> TableInfo \<Rightarrow> world \<Rightarrow> bool \<times> world" where
  "relatedLoop i recordCount table1 table2 w =
     (if i < recordCount then
        (let (completed, w1) = relatedRecord table1 table2 w
         in if completed then relatedLoop (i + 1) recordCount table1 table2 w1
            else (False, w1))
      else (True, w))"
  by pat_completeness auto
termination
  by (relation "measure (\<lambda>(i, recordCount, table1, table2, w). recordCount - i)") auto

declare relatedLoop.simps [simp del]

definition insertRelatedData :: "world \<Rightarrow> world" where
  "insertRelatedData w =
     (let (input, w1) = readLine w
      in case Atoi input of
           None \<Rightarrow> say (Report InvalidCount) w1
         | Some recordCount \<Rightarrow>
             if recordCount < 1 then say (Report InvalidCount) w1
             else
               let (choiceInput, w2) = readLine w1
               in (case Atoi choiceInput of
                     None \<Rightarrow> say (Report InvalidMenuChoice) w2
                   | Some choice \<Rightarrow>
                       if choice < 0 \<or> choice > int (length relatedTables)
                       then say (Report InvalidMenuChoice) w2
                       else if choice = 0 then w2
                       else
                         (case relationTables (relatedTables ! nat (choice - 1)) of
                            None \<Rightarrow> say (Report RelationFormat) w2
                          | Some (table1, table2) \<Rightarrow>
                              let (completed, w3) =
                                    relatedLoop 0 (nat recordCount) table1 table2 w2
                              in if completed then say (TotalAdded (nat recordCount)) w3 else w3)))"

section \<open>The main menu\<close>




section \<open>Notions used to state the properties\<close>

text \<open>
  The line the operator types \<open>j\<close> lines from now; past the end of the input it is the
  empty text, as \<open>readLine\<close> gives it.
\<close>

definition lineAt :: "string list \<Rightarrow> nat \<Rightarrow> string" where
  "lineAt ls j = (if j < length ls then ls ! j else [])"

text \<open>The placeholders \<open>$m\<close> up to, and without, \<open>$n\<close>.\<close>

definition placeholders :: "nat \<Rightarrow> nat \<Rightarrow> string list" where
  "placeholders m n = map (\<lambda>j. ''$'' @ itoa j) [m..<n]"

text \<open>
  The statements as the specification words them: Update with one identifier and with
  several, and Filter with its conditions numbered from 1 and joined by AND.
\<close>

definition specUpdate :: "string \<Rightarrow> string \<Rightarrow> nat \<Rightarrow> string" where
  "specUpdate tbl col k =
     (if k = 1 then ''UPDATE '' @ tbl @ '' SET '' @ col @ '' = $1 WHERE id = $2''
      else ''UPDATE '' @ tbl @ '' SET '' @ col @ '' = $1 WHERE id IN (''
             @ Join (placeholders 2 (k + 2)) '', '' @ '')'')"

definition specFilter :: "string \<Rightarrow> string list \<Rightarrow> string" where
  "specFilter tbl cols =
     ''SELECT * FROM '' @ tbl @ '' WHERE ''
       @ Join (map (\<lambda>(col, j). col @ '' = $'' @ itoa j) (zip cols [1..<length cols + 1])) '' AND ''
       @ '' ORDER BY id''"

text \<open>
  The column that a line typed at the column menu chooses: the number of a column of
  the table, counted from 1. \<open>None\<close> when the line chooses no column.
\<close>

definition chosenColumn :: "TableInfo \<Rightarrow> string \<Rightarrow> string option" where
  "chosenColumn table line =
     (case Atoi line of
        None \<Rightarrow> None
      | Some k \<Rightarrow> if 1 \<le> k \<and> k \<le> int (length (Columns table))
                  then Some (Columns table ! nat (k - 1)) else None)"

text \<open>
  The grid as the specification words it. The rows are those that have one value for
  each column, with NULL as the empty text. The width of a column is the maximum of
  the length of its header and of the lengths of its cells. A cell is padded with
  spaces up to the width of its column and never cut. The lines are the header line
  (after an empty line), the divider and one line for each row.
\<close>

definition gridRows :: "string list \<Rightarrow> string option list list \<Rightarrow> string list list" where
  "gridRows columns rows = map (map cellText) (filter (\<lambda>vals. length vals = length columns) rows)"

definition specWidth :: "string list \<Rightarrow> string list list \<Rightarrow> nat \<Rightarrow> nat" where
  "specWidth columns allRows i =
     Max (set (length (columns ! i) # map (\<lambda>rowData. length (rowData ! i)) allRows))"

definition specPad :: "string \<Rightarrow> nat \<Rightarrow> string" where
  "specPad str width = str @ replicate (width - length str) CHR '' ''"

definition specGrid :: "string list \<Rightarrow> string list list \<Rightarrow> string list" where
  "specGrid columns allRows =
     (CHR 0x0A # Join (map (\<lambda>i. specPad (columns ! i) (specWidth columns allRows i))
                        [0..<length columns]) '' | '')
     # Join (map (\<lambda>i. replicate (specWidth columns allRows i) CHR ''-'') [0..<length columns]) ''-+-''
     # map (\<lambda>rowData. Join (map (\<lambda>i. specPad (rowData ! i) (specWidth columns allRows i))
                                [0..<length columns]) '' | '') allRows"

text \<open>The Insert statement as the specification words it.\<close>

definition specInsert :: "string \<Rightarrow> string list \<Rightarrow> string" where
  "specInsert tbl cols =
     ''INSERT INTO '' @ tbl @ '' ('' @ Join cols '', '' @ '') VALUES (''
       @ Join (placeholders 1 (length cols + 1)) '', '' @ '')''"

text \<open>
  The parameters of the second insert of InsertRelated: for the foreign-key column the
  id that the first insert returned, for every other column the next text typed.
\<close>

fun specSecondParams :: "string \<Rightarrow> int \<Rightarrow> string list \<Rightarrow> string list \<Rightarrow> param list" where
  "specSecondParams fk n [] typed = []"
| "specSecondParams fk n (c # cs) typed =
     (if c = fk then PInt n # specSecondParams fk n cs typed
      else PStr (hd typed) # specSecondParams fk n cs (tl typed))"

text \<open>The column names that the specification calls numeric.\<close>

definition numericColumn :: "string \<Rightarrow> bool" where
  "numericColumn column =
     (column \<in> set [''price'', ''quantity'', ''founded_year'', ''category_id'',
                     ''manufacturer_id'', ''component_id''])"

text \<open>A column, after \<open>id\<close>, of the first table of one of the configured relations.\<close>

definition firstTableColumn :: "string \<Rightarrow> bool" where
  "firstTableColumn column =
     list_ex (\<lambda>relation.
        case relationTables relation of
          None \<Rightarrow> False
        | Some (table1, table2) \<Rightarrow> column \<in> set (tl (Columns table1)))
       relatedTables"

text \<open>
  The world after the operator's next \<open>k\<close> lines were read: what \<open>readLine\<close> leaves,
  \<open>k\<close> times over.
\<close>

definition skipLines :: "nat \<Rightarrow> world \<Rightarrow> world" where
  "skipLines k w = w\<lparr>stdin := drop k (stdin w)\<rparr>"



text \<open>The number of placeholders of a statement: each starts with a dollar sign.\<close>

definition placeholderCount :: "string \<Rightarrow> nat" where
  "placeholderCount q = length (filter (\<lambda>c. c = CHR ''$'') q)"

text \<open>
  The statements that hold nothing but fixed SQL text, placeholders and names of the
  catalog: for a table of the catalog, a filter on some of its columns, an update of
  one of its columns other than \<open>id\<close> for some number of rows, and the insert of its
  columns after \<open>id\<close>, with or without the returned id. No text typed by the
  operator is part of them.
\<close>

definition catalogStatements :: "string set" where
  "catalogStatements =
     (\<Union>t\<in>set tables.
        {specFilter (Name t) cols | cols. set cols \<subseteq> set (Columns t)}
        \<union> {specUpdate (Name t) col k | col k. col \<in> set (Columns t) \<and> col \<noteq> ''id'' \<and> 1 \<le> k}
        \<union> {specInsert (Name t) (tl (Columns t)),
            specInsert (Name t) (tl (Columns t)) @ '' RETURNING id''})"

text \<open>
  A call is bound when its text is such a statement and it has as many parameters as
  the text has placeholders.
\<close>

definition boundStatement :: "callkind \<times> string \<times> param list \<Rightarrow> bool" where
  "boundStatement call =
     (case call of (kind, q, args) \<Rightarrow> q \<in> catalogStatements \<and> placeholderCount q = length args)"

section \<open>Basic facts about the world\<close>

lemma say_fields [simp]:
  "stdin (say e w) = stdin w" "db (say e w) = db w" "out (say e w) = out w @ [e]"
  by (simp_all add: say_def)

lemma sent_append [simp]: "sent (xs @ ys) = sent xs @ sent ys"
  by (induction xs rule: sent.induct) simp_all

lemma readLine_fields:
  assumes "readLine w = (l, w')"
  shows "l = lineAt (stdin w) 0" "stdin w' = tl (stdin w)" "db w' = db w" "out w' = out w"
  using assms by (auto simp: readLine_def lineAt_def split: list.splits)

lemma lineAt_tl: "lineAt (tl ls) j = lineAt ls (Suc j)"
  by (cases ls) (simp_all add: lineAt_def)

lemma selectTable_fields:
  assumes "selectTable w = (r, w')"
  shows "stdin w' = tl (stdin w)" "db w' = db w" "sent (out w') = sent (out w)"
  using assms
  by (auto simp: selectTable_def split: prod.splits option.splits if_splits dest: readLine_fields)

lemma selectTable_valid:
  assumes "Atoi (lineAt (stdin w) 0) = Some choice" "1 \<le> choice" "choice \<le> int (length tables)"
  shows "\<exists>w'. selectTable w = (choice - 1, w') \<and> stdin w' = tl (stdin w) \<and> db w' = db w
           \<and> out w' = out w"
  using assms
  by (auto simp: selectTable_def split: prod.splits option.splits dest: readLine_fields)

lemma catalog_updatable:
  "t \<in> set tables \<Longrightarrow> filter (\<lambda>column. column \<noteq> ''id'') (Columns t) \<noteq> []"
  by (auto simp: tables_def)

lemma table_choice_in_catalog:
  "1 \<le> choice \<Longrightarrow> choice \<le> int (length tables) \<Longrightarrow> tables ! nat (choice - 1) \<in> set tables"
  by (rule nth_mem) linarith

lemma dbExec_fields:
  assumes "dbExec q a w = (r, w')"
  shows "out w' = out w @ [DbCall Exec q a]" "stdin w' = stdin w"
  using assms by (auto simp: dbExec_def answer_def split: list.splits prod.splits)

lemma dbQuery_fields:
  assumes "dbQuery q a w = (r, w')"
  shows "out w' = out w @ [DbCall Query q a]" "stdin w' = stdin w"
  using assms by (auto simp: dbQuery_def answer_def split: list.splits prod.splits)

lemma dbQueryRow_fields:
  assumes "dbQueryRow q a w = (r, w')"
  shows "out w' = out w @ [DbCall QueryRow q a]" "stdin w' = stdin w"
  using assms by (auto simp: dbQueryRow_def answer_def split: list.splits prod.splits)

lemma map_shift_upt: "map (\<lambda>i. f (i + m)) [0..<n] = map f [m..<n + m]"
proof -
  have "map f [m..<n + m] = map f (map (\<lambda>i. i + m) [0..<n])" by (simp add: map_add_upt)
  then show ?thesis by (simp add: comp_def)
qed

lemma selectColumn_chosen:
  assumes "chosenColumn table (lineAt (stdin w) 0) = Some col"
  shows "\<exists>k w'. selectColumn table w = (k, w') \<and> k \<noteq> - 1 \<and> Columns table ! nat k = col
           \<and> stdin w' = tl (stdin w) \<and> db w' = db w \<and> out w' = out w"
  using assms
  by (auto simp: selectColumn_def chosenColumn_def split: prod.splits option.splits if_splits
        dest: readLine_fields)

lemma printRows_out:
  "out (printRows allRows ws w) = out w @ map (\<lambda>rowData. Println (rowLine rowData ws)) allRows"
  by (induction allRows arbitrary: w) simp_all

lemma printRows_fields [simp]:
  "stdin (printRows allRows ws w) = stdin w" "db (printRows allRows ws w) = db w"
  by (induction allRows arbitrary: w) simp_all

lemma sent_Println [simp]: "sent (map (\<lambda>x. Println (f x)) xs) = []"
  by (induction xs) simp_all

lemma printGrid_out:
  "out (printGrid columns ws allRows w)
   = out w @ Println (headerLine columns ws) # Println (dividerLine ws)
       # map (\<lambda>rowData. Println (rowLine rowData ws)) allRows"
  by (simp add: printGrid_def printRows_out)

lemma printGrid_fields [simp]:
  "stdin (printGrid columns ws allRows w) = stdin w" "db (printGrid columns ws allRows w) = db w"
  by (simp_all add: printGrid_def)

lemma set_tl_subset: "set (tl xs) \<subseteq> set xs"
  by (cases xs) auto

lemma selectColumn_fields:
  assumes "selectColumn table w = (r, w')"
  shows "stdin w' = tl (stdin w)" "db w' = db w" "sent (out w') = sent (out w)"
    "r \<noteq> - 1 \<Longrightarrow> 0 \<le> r \<and> r < int (length (Columns table))"
  using assms
  by (auto simp: selectColumn_def split: prod.splits option.splits if_splits dest: readLine_fields)

lemma sent_Prompt [simp]: "sent (map (\<lambda>x. Prompt (f x)) xs) = []"
  by (induction xs) simp_all

lemma chosenColumn_mem: "chosenColumn table line = Some col \<Longrightarrow> col \<in> set (Columns table)"
  by (auto simp: chosenColumn_def split: option.splits if_splits intro!: nth_mem)

section \<open>Counting placeholders\<close>

lemma pc_append [simp]: "placeholderCount (a @ b) = placeholderCount a + placeholderCount b"
  by (simp add: placeholderCount_def)

lemma pc_Nil [simp]: "placeholderCount [] = 0"
  by (simp add: placeholderCount_def)

lemma pc_Cons [simp]: "placeholderCount (c # cs) = (if c = CHR ''$'' then 1 else 0) + placeholderCount cs"
  by (simp add: placeholderCount_def)

lemma digitChar_not_dollar: "d < 10 \<Longrightarrow> digitChar d \<noteq> CHR ''$''"
proof -
  assume "d < 10"
  then have "d \<in> {0, 1, 2, 3, 4, 5, 6, 7, 8, 9}" by auto
  then show ?thesis by (auto simp: digitChar_def)
qed

lemma pc_itoa [simp]: "placeholderCount (itoa n) = 0"
proof (induction n rule: itoa.induct)
  case (1 n)
  show ?case
  proof (cases "n < 10")
    case True
    then show ?thesis by (subst itoa.simps) (simp add: digitChar_not_dollar)
  next
    case False
    then have "placeholderCount (itoa (n div 10)) = 0" using 1 by simp
    with False show ?thesis by (subst itoa.simps) (simp add: digitChar_not_dollar)
  qed
qed

lemma pc_Join:
  "placeholderCount (Join xs sep)
   = sum_list (map placeholderCount xs) + (length xs - 1) * placeholderCount sep"
  by (induction xs sep rule: Join.induct) simp_all

lemma pc_placeholders: "placeholderCount (Join (placeholders m n) '', '') = n - m"
proof -
  have "sum_list (map placeholderCount (placeholders m n)) = n - m"
    by (simp add: placeholders_def comp_def sum_list_triv)
  then show ?thesis by (simp add: pc_Join)
qed

lemma pc_catalog:
  assumes "t \<in> set tables"
  shows "placeholderCount (Name t) = 0" "c \<in> set (Columns t) \<Longrightarrow> placeholderCount c = 0"
  using assms by (auto simp: tables_def)

lemma pc_columns:
  assumes "t \<in> set tables" "set cols \<subseteq> set (Columns t)"
  shows "sum_list (map placeholderCount cols) = 0"
  using assms pc_catalog(2) by (induction cols) auto

lemma pc_specInsert:
  assumes "t \<in> set tables" "set cols \<subseteq> set (Columns t)"
  shows "placeholderCount (specInsert (Name t) cols) = length cols"
proof -
  have a: "placeholderCount (Join cols '', '') = 0"
    by (simp add: pc_Join pc_columns[OF assms])
  have b: "placeholderCount (Join (placeholders 1 (length cols + 1)) '', '') = length cols"
    by (simp add: pc_placeholders)
  show ?thesis
    unfolding specInsert_def pc_append a b pc_catalog(1)[OF assms(1)] by simp
qed

lemma pc_specUpdate:
  assumes "t \<in> set tables" "col \<in> set (Columns t)" "1 \<le> k"
  shows "placeholderCount (specUpdate (Name t) col k) = k + 1"
proof -
  have b: "placeholderCount (Join (placeholders 2 (k + 2)) '', '') = k"
    by (simp add: pc_placeholders)
  show ?thesis
    unfolding specUpdate_def
    using pc_catalog[OF assms(1)] assms(2,3) b by (simp del: Join.simps)
qed

lemma pc_conditions:
  assumes "t \<in> set tables" "set cols \<subseteq> set (Columns t)" "length js = length cols"
  shows "sum_list (map placeholderCount (map (\<lambda>(col, j). col @ '' = $'' @ itoa j) (zip cols js)))
         = length cols"
  using assms
proof (induction cols arbitrary: js)
  case Nil
  then show ?case by simp
next
  case (Cons c cols)
  then obtain j js' where js: "js = j # js'" by (cases js) auto
  have "placeholderCount c = 0" using pc_catalog(2)[OF Cons.prems(1)] Cons.prems(2) by simp
  moreover have "sum_list (map placeholderCount (map (\<lambda>(col, j). col @ '' = $'' @ itoa j) (zip cols js')))
         = length cols"
    by (rule Cons.IH) (use Cons.prems js in simp_all)
  ultimately show ?case by (simp add: js)
qed

lemma pc_specFilter:
  assumes "t \<in> set tables" "set cols \<subseteq> set (Columns t)"
  shows "placeholderCount (specFilter (Name t) cols) = length cols"
proof -
  have "length [1..<length cols + 1] = length cols" by (simp only: length_upt add_diff_cancel_right')
  from pc_conditions[OF assms this]
  have a: "placeholderCount
             (Join (map (\<lambda>(col, j). col @ '' = $'' @ itoa j) (zip cols [1..<length cols + 1])) '' AND '')
           = length cols"
    by (simp only: pc_Join) simp
  show ?thesis
    unfolding specFilter_def pc_append a pc_catalog(1)[OF assms(1)] by simp
qed

section \<open>Update: the row identifiers\<close>

lemma readIds_fails:
  assumes "k < n - i" "Atoi (lineAt (stdin w) k) = None"
  shows "\<exists>w'. readIds i n ids w = (None, w') \<and> db w' = db w \<and> sent (out w') = sent (out w)
           \<and> last (out w') = Report IdNotANumber"
  using assms
proof (induction k arbitrary: i ids w)
  case 0
  obtain l w1 where r: "readLine (say (AskId (i + 1)) w) = (l, w1)"
    by (cases "readLine (say (AskId (i + 1)) w)")
  from readLine_fields[OF r] 0 r show ?case
    by (subst readIds.simps) simp
next
  case (Suc k)
  obtain l w1 where r: "readLine (say (AskId (i + 1)) w) = (l, w1)"
    by (cases "readLine (say (AskId (i + 1)) w)")
  note f = readLine_fields[OF r]
  have lt: "i < n" using Suc.prems by simp
  show ?case
  proof (cases "Atoi l = None")
    case True
    with f lt r show ?thesis by (subst readIds.simps) simp
  next
    case False
    have "k < n - (i + 1)" using Suc.prems by simp
    moreover have "Atoi (lineAt (stdin w1) k) = None" using f Suc.prems by (simp add: lineAt_tl)
    ultimately obtain w' where "readIds (i + 1) n (ids @ [l]) w1 = (None, w')" "db w' = db w1"
      "sent (out w') = sent (out w1)" "last (out w') = Report IdNotANumber"
      using Suc.IH by blast
    with f False lt r show ?thesis by (subst readIds.simps) simp
  qed
qed

text \<open>
  Claim C10. In the Update operation, after a valid count and a valid table choice,
  when one of the \<open>updateCount\<close> lines typed as row identifiers is not an integer, the
  operation ends with the message that the identifier must be a number; it has sent
  no statement to the database and has taken no answer from it.
\<close>

theorem update_bad_id:
  assumes "Atoi (lineAt (stdin w) 0) = Some updateCount" "1 \<le> updateCount"
    and "Atoi (lineAt (stdin w) 1) = Some choice" "1 \<le> choice" "choice \<le> int (length tables)"
    and "k < nat updateCount" "Atoi (lineAt (stdin w) (2 + k)) = None"
  shows "sent (out (updateData w)) = sent (out w) \<and> db (updateData w) = db w
           \<and> last (out (updateData w)) = Report IdNotANumber"
proof -
  obtain l w1 where r: "readLine w = (l, w1)" by (cases "readLine w")
  note f1 = readLine_fields[OF r]
  have "Atoi (lineAt (stdin w1) 0) = Some choice" using f1 assms(3) by (simp add: lineAt_tl)
  from selectTable_valid[OF this assms(4,5)] obtain w2 where
    s: "selectTable w1 = (choice - 1, w2)" "stdin w2 = tl (stdin w1)" "db w2 = db w1" "out w2 = out w1"
    by blast
  have "Atoi (lineAt (stdin w2) k) = None" using s f1 assms(7) by (simp add: lineAt_tl)
  moreover have "k < nat updateCount - 0" using assms(6) by simp
  ultimately obtain w3 where i: "readIds 0 (nat updateCount) [] w2 = (None, w3)" "db w3 = db w2"
      "sent (out w3) = sent (out w2)" "last (out w3) = Report IdNotANumber"
    using readIds_fails by blast
  have u: "filter (\<lambda>column. column \<noteq> ''id'') (Columns (tables ! nat (choice - 1))) \<noteq> []"
    using catalog_updatable table_choice_in_catalog assms(4,5) by blast
  have "updateData w = w3"
    using assms(1,2,4) f1 u by (simp add: updateData_def r s i)
  then show ?thesis using i s f1 by simp
qed

theorem update_bad_id_witness:
  "Atoi (lineAt [''2'', ''3'', ''6'', ''x'', ''5'', ''10''] 0) = Some 2
   \<and> Atoi (lineAt [''2'', ''3'', ''6'', ''x'', ''5'', ''10''] 1) = Some 3
   \<and> Atoi (lineAt [''2'', ''3'', ''6'', ''x'', ''5'', ''10''] (2 + 1)) = None
   \<and> sent (out (updateData \<lparr>stdin = [''2'', ''3'', ''6'', ''x'', ''5'', ''10''],
                              db = [DbAffected 2], out = []\<rparr>)) = []
   \<and> db (updateData \<lparr>stdin = [''2'', ''3'', ''6'', ''x'', ''5'', ''10''],
                       db = [DbAffected 2], out = []\<rparr>) = [DbAffected 2]
   \<and> last (out (updateData \<lparr>stdin = [''2'', ''3'', ''6'', ''x'', ''5'', ''10''],
                              db = [DbAffected 2], out = []\<rparr>)) = Report IdNotANumber"
proof -
  let ?w = "\<lparr>stdin = [''2'', ''3'', ''6'', ''x'', ''5'', ''10''], db = [DbAffected 2], out = []\<rparr>"
  have a: "Atoi (lineAt (stdin ?w) 0) = Some 2" by (simp add: Atoi_def lineAt_def isDigit_def)
  have b: "Atoi (lineAt (stdin ?w) 1) = Some 3" by (simp add: Atoi_def lineAt_def isDigit_def)
  have c: "Atoi (lineAt (stdin ?w) (2 + 1)) = None" by (simp add: Atoi_def lineAt_def isDigit_def)
  have d: "(3::int) \<le> int (length tables)" by (simp add: tables_def)
  have "sent (out (updateData ?w)) = sent (out ?w) \<and> db (updateData ?w) = db ?w
           \<and> last (out (updateData ?w)) = Report IdNotANumber"
    by (rule update_bad_id[OF a _ b _ d _ c]) simp_all
  with a b c show ?thesis by simp
qed

lemma readIds_ok:
  assumes "\<forall>id\<in>set new. Atoi id \<noteq> None" "stdin w = new @ rest" "n = i + length new"
  shows "\<exists>w'. readIds i n ids w = (Some (ids @ new), w') \<and> stdin w' = rest \<and> db w' = db w
           \<and> sent (out w') = sent (out w)"
  using assms
proof (induction new arbitrary: i ids w)
  case Nil
  then show ?case by (subst readIds.simps) simp
next
  case (Cons x new)
  obtain l w1 where r: "readLine (say (AskId (i + 1)) w) = (l, w1)"
    by (cases "readLine (say (AskId (i + 1)) w)")
  note f = readLine_fields[OF r]
  have l: "l = x" "stdin w1 = new @ rest" using f Cons.prems by (simp_all add: lineAt_def)
  have "\<exists>w'. readIds (i + 1) n (ids @ [x]) w1 = (Some ((ids @ [x]) @ new), w') \<and> stdin w' = rest
          \<and> db w' = db w1 \<and> sent (out w') = sent (out w1)"
    by (rule Cons.IH) (use Cons.prems l in simp_all)
  then obtain w' where "readIds (i + 1) n (ids @ [x]) w1 = (Some (ids @ x # new), w')"
    "stdin w' = rest" "db w' = db w1" "sent (out w') = sent (out w1)" by auto
  moreover have "i < n" "Atoi x \<noteq> None" using Cons.prems by simp_all
  ultimately show ?case using f l r by (subst readIds.simps) auto
qed

lemma updateStatement_spec:
  assumes "ids \<noteq> []"
  shows "updateStatement table col v (int (length ids)) ids
         = (specUpdate (Name table) col (length ids), PStr v # map PStr ids)"
proof (cases "length ids = 1")
  case True
  then obtain x where "ids = [x]" by (cases ids) simp_all
  then show ?thesis by (simp add: updateStatement_def specUpdate_def)
next
  case False
  have ph: "map (\<lambda>i. ''$'' @ itoa (i + 2)) [0..<length ids] = placeholders 2 (length ids + 2)"
    unfolding placeholders_def by (rule map_shift_upt[of "\<lambda>j. ''$'' @ itoa j" 2 "length ids"])
  have ne: "(int (length ids) = 1) = False" "(length ids = 1) = False" using False by simp_all
  show ?thesis
    by (simp only: updateStatement_def specUpdate_def Let_def ne if_False ph)
qed

text \<open>
  Claim C5. An Update request that passes every check: a count \<open>k\<close> of at least 1, a
  table of the catalog, \<open>k\<close> row identifiers that are integers, a column chosen from
  the menu of the columns other than \<open>id\<close>, and a new value that passes the checks.
  The operation sends exactly one statement: for one identifier
  \<open>UPDATE table SET col = $1 WHERE id = $2\<close>, for several
  \<open>UPDATE table SET col = $1 WHERE id IN ($2, ..., $(k+1))\<close>, with the new value and
  then the identifiers, in the order typed, as its parameters. The column is a column
  of the table and is never \<open>id\<close>.
\<close>

theorem update_statement:
  fixes w :: world and choice :: int
  defines "table \<equiv> tables ! nat (choice - 1)"
  defines "updatable \<equiv> filter (\<lambda>column. column \<noteq> ''id'') (Columns table)"
  assumes "stdin w = countLine # tableLine # ids @ columnLine # newValue # rest"
    and "Atoi countLine = Some (int (length ids))" "ids \<noteq> []"
    and "Atoi tableLine = Some choice" "1 \<le> choice" "choice \<le> int (length tables)"
    and "\<forall>id\<in>set ids. Atoi id \<noteq> None"
    and "Atoi columnLine = Some columnChoice" "1 \<le> columnChoice"
        "columnChoice \<le> int (length updatable)"
    and "updateCheck (updatable ! nat (columnChoice - 1)) newValue = None"
  shows "sent (out (updateData w))
           = sent (out w) @ [(Exec, specUpdate (Name table) (updatable ! nat (columnChoice - 1))
                                      (length ids),
                              PStr newValue # map PStr ids)]
         \<and> placeholderCount (specUpdate (Name table) (updatable ! nat (columnChoice - 1)) (length ids))
             = length ids + 1
         \<and> updatable ! nat (columnChoice - 1) \<noteq> ''id''
         \<and> updatable ! nat (columnChoice - 1) \<in> set (Columns table)"
proof -
  let ?col = "updatable ! nat (columnChoice - 1)"
  have t: "table = tables ! nat (choice - 1)" by (simp add: table_def)
  have mem: "?col \<in> set updatable" using assms(11,12) by (intro nth_mem) linarith
  then have col: "?col \<noteq> ''id''" "?col \<in> set (Columns table)" by (auto simp: updatable_def)
  obtain l w1 where r: "readLine w = (l, w1)" by (cases "readLine w")
  note f1 = readLine_fields[OF r]
  have l: "l = countLine" using f1 assms(3) by (simp add: lineAt_def)
  have "Atoi (lineAt (stdin w1) 0) = Some choice" using f1 assms(3,6) by (simp add: lineAt_def)
  from selectTable_valid[OF this assms(7,8)] obtain w2 where
    s: "selectTable w1 = (choice - 1, w2)" "stdin w2 = tl (stdin w1)" "db w2 = db w1" "out w2 = out w1"
    by blast
  have "stdin w2 = ids @ (columnLine # newValue # rest)" using s f1 assms(3) by simp
  from readIds_ok[OF assms(9) this, of "length ids" 0 "[]"] obtain w3 where
    i: "readIds 0 (length ids) [] w2 = (Some ids, w3)" "stdin w3 = columnLine # newValue # rest"
       "db w3 = db w2" "sent (out w3) = sent (out w2)"
    by auto
  obtain l4 w4 where r4: "readLine w3 = (l4, w4)" by (cases "readLine w3")
  note f4 = readLine_fields[OF r4]
  have l4: "l4 = columnLine" "stdin w4 = newValue # rest" using f4 i by (simp_all add: lineAt_def)
  obtain l5 w5 where r5: "readLine (say (Prompt ?col) w4) = (l5, w5)"
    by (cases "readLine (say (Prompt ?col) w4)")
  note f5 = readLine_fields[OF r5]
  have l5: "l5 = newValue" using f5 l4 by (simp add: lineAt_def)
  obtain r6 w6 where e: "dbExec (specUpdate (Name table) ?col (length ids)) (PStr newValue # map PStr ids) w5 = (r6, w6)"
    by (cases "dbExec (specUpdate (Name table) ?col (length ids)) (PStr newValue # map PStr ids) w5")
  note f6 = dbExec_fields[OF e]
  have u: "updatable \<noteq> []" using mem by auto
  have len: "(1::int) \<le> int (length ids)" using assms(5) by (cases ids) simp_all
  have "updateData w = (case r6 of None \<Rightarrow> say (Report ExecutionError) w6
                         | Some rowsAffected \<Rightarrow> say (Updated rowsAffected) w6)"
    unfolding updateData_def
    using assms(4,5,7,10,11,12,13) u len
    by (simp add: r l s t[symmetric] updatable_def[symmetric] i r4 l4 r5 l5 updateStatement_spec[OF assms(5)] e)
  then have "sent (out (updateData w)) = sent (out w6)" by (simp split: option.splits)
  also have "\<dots> = sent (out w) @ [(Exec, specUpdate (Name table) ?col (length ids), PStr newValue # map PStr ids)]"
    using f6 f5 f4 i s f1 by simp
  finally have snt: "sent (out (updateData w))
      = sent (out w) @ [(Exec, specUpdate (Name table) ?col (length ids), PStr newValue # map PStr ids)]" .
  have tm: "table \<in> set tables" using table_choice_in_catalog[OF assms(7,8)] by (simp add: t)
  have "1 \<le> length ids" using assms(5) by (cases ids) simp_all
  from pc_specUpdate[OF tm col(2) this] snt col show ?thesis by simp
qed


theorem update_statement_witness:
  "sent (out (updateData \<lparr>stdin = [''2'', ''3'', ''6'', ''7'', ''5'', ''10''], db = [], out = []\<rparr>))
   = [(Exec, ''UPDATE components SET price = $1 WHERE id IN ($2, $3)'',
       [PStr ''10'', PStr ''6'', PStr ''7''])]
   \<and> placeholderCount ''UPDATE components SET price = $1 WHERE id IN ($2, $3)'' = 3"
proof -
  let ?w = "\<lparr>stdin = [''2'', ''3'', ''6'', ''7'', ''5'', ''10''], db = [], out = []\<rparr>"
  let ?table = "tables ! nat (3 - 1)"
  let ?updatable = "filter (\<lambda>column. column \<noteq> ''id'') (Columns ?table)"
  have "sent (out (updateData ?w))
        = sent (out ?w) @ [(Exec, specUpdate (Name ?table) (?updatable ! nat (5 - 1)) (length [''6'', ''7'']),
                            PStr ''10'' # map PStr [''6'', ''7''])]
          \<and> placeholderCount (specUpdate (Name ?table) (?updatable ! nat (5 - 1)) (length [''6'', ''7'']))
              = length [''6'', ''7''] + 1
          \<and> ?updatable ! nat (5 - 1) \<noteq> ''id''
          \<and> ?updatable ! nat (5 - 1) \<in> set (Columns ?table)"
    by (rule update_statement[where w = ?w and choice = 3 and columnChoice = 5
          and ids = "[''6'', ''7'']" and newValue = "''10''" and countLine = "''2''"
          and tableLine = "''3''" and columnLine = "''5''" and rest = "[]"])
       (simp_all add: Atoi_def isDigit_def updateCheck_def MatchString_def asciiAllowed_def
          tables_def)
  then show ?thesis
    by (simp add: specUpdate_def placeholders_def tables_def itoa.simps digitChar_def)
qed

section \<open>Filter: the statement\<close>

lemma filterLoop_ok:
  assumes "\<forall>(c, v)\<in>set pairs. chosenColumn table c \<noteq> None \<and> filterCheck v = None"
    and "stdin w = concat (map (\<lambda>(c, v). [c, v]) pairs) @ rest"
    and "n = i + length pairs"
  shows "\<exists>w'. filterLoop i n table conditions vals w
               = (Some (conditions
                          @ map (\<lambda>(col, j). col @ '' = $'' @ itoa j)
                              (zip (map (\<lambda>(c, v). the (chosenColumn table c)) pairs) [i + 1..<n + 1]),
                        vals @ map (\<lambda>(c, v). PStr v) pairs), w')
             \<and> stdin w' = rest \<and> db w' = db w
             \<and> out w' = out w @ map (\<lambda>(c, v). Prompt (the (chosenColumn table c))) pairs"
  using assms
proof (induction pairs arbitrary: i conditions vals w)
  case Nil
  then show ?case by (subst filterLoop.simps) simp
next
  case (Cons p pairs)
  obtain c v where p: "p = (c, v)" by (cases p)
  from Cons.prems p obtain col where col: "chosenColumn table c = Some col" and v: "filterCheck v = None"
    by auto
  have "chosenColumn table (lineAt (stdin w) 0) = Some col"
    using Cons.prems p col by (simp add: lineAt_def)
  from selectColumn_chosen[OF this] obtain k w1 where
    s: "selectColumn table w = (k, w1)" "k \<noteq> - 1" "Columns table ! nat k = col"
       "stdin w1 = tl (stdin w)" "db w1 = db w" "out w1 = out w"
    by blast
  obtain l w2 where r: "readLine (say (Prompt col) w1) = (l, w2)"
    by (cases "readLine (say (Prompt col) w1)")
  note f = readLine_fields[OF r]
  have l: "l = v" "stdin w2 = concat (map (\<lambda>(c, v). [c, v]) pairs) @ rest"
    using f s Cons.prems p by (simp_all add: lineAt_def)
  have "\<exists>w'. filterLoop (i + 1) n table (conditions @ [col @ '' = $'' @ itoa (i + 1)]) (vals @ [PStr v]) w2
               = (Some ((conditions @ [col @ '' = $'' @ itoa (i + 1)])
                          @ map (\<lambda>(col, j). col @ '' = $'' @ itoa j)
                              (zip (map (\<lambda>(c, v). the (chosenColumn table c)) pairs) [i + 1 + 1..<n + 1]),
                        (vals @ [PStr v]) @ map (\<lambda>(c, v). PStr v) pairs), w')
             \<and> stdin w' = rest \<and> db w' = db w2
             \<and> out w' = out w2 @ map (\<lambda>(c, v). Prompt (the (chosenColumn table c))) pairs"
    by (rule Cons.IH) (use Cons.prems l in simp_all)
  then obtain w' where w':
    "filterLoop (i + 1) n table (conditions @ [col @ '' = $'' @ itoa (i + 1)]) (vals @ [PStr v]) w2
       = (Some ((conditions @ [col @ '' = $'' @ itoa (i + 1)])
                  @ map (\<lambda>(col, j). col @ '' = $'' @ itoa j)
                      (zip (map (\<lambda>(c, v). the (chosenColumn table c)) pairs) [i + 1 + 1..<n + 1]),
                (vals @ [PStr v]) @ map (\<lambda>(c, v). PStr v) pairs), w')"
    "stdin w' = rest" "db w' = db w2"
    "out w' = out w2 @ map (\<lambda>(c, v). Prompt (the (chosenColumn table c))) pairs"
    by blast
  have lt: "i < n" using Cons.prems by simp
  then have upt: "[i + 1..<n + 1] = (i + 1) # [i + 1 + 1..<n + 1]"
    by (simp add: upt_conv_Cons)
  have "filterLoop i n table conditions vals w
        = filterLoop (i + 1) n table (conditions @ [col @ '' = $'' @ itoa (i + 1)]) (vals @ [PStr v]) w2"
    using lt s r l v by (subst filterLoop.simps) simp
  then show ?case
    using w' f(3,4) s p col by (simp only: upt) simp
qed

text \<open>
  Claim C6. A Filter request with \<open>N\<close> pairs of a column choice and a value, \<open>N\<close> at
  least 1, each choice a column of the table and each value passing the check of the
  operation: the operation sends exactly one statement,
  \<open>SELECT * FROM table WHERE col1 = $1 AND ... AND colN = $N ORDER BY id\<close>, one
  condition for each pair, numbered from 1 in the order typed and joined by AND, with
  the values in the same order as its parameters. The statement has exactly \<open>N\<close>
  placeholders.
\<close>

theorem filter_statement:
  fixes pairs :: "(string \<times> string) list" and choice :: int
  defines "table \<equiv> tables ! nat (choice - 1)"
  assumes "stdin w = countLine # tableLine # concat (map (\<lambda>(c, v). [c, v]) pairs) @ rest"
    and "Atoi countLine = Some (int (length pairs))" "pairs \<noteq> []"
    and "Atoi tableLine = Some choice" "1 \<le> choice" "choice \<le> int (length tables)"
    and "\<forall>(c, v)\<in>set pairs. chosenColumn table c \<noteq> None \<and> filterCheck v = None"
  shows "sent (out (filterData w))
         = sent (out w) @ [(Query,
                            specFilter (Name table) (map (\<lambda>(c, v). the (chosenColumn table c)) pairs),
                            map (\<lambda>(c, v). PStr v) pairs)]
         \<and> placeholderCount
               (specFilter (Name table) (map (\<lambda>(c, v). the (chosenColumn table c)) pairs))
             = length pairs"
proof -
  let ?cols = "map (\<lambda>(c, v). the (chosenColumn table c)) pairs"
  let ?q = "specFilter (Name table) ?cols"
  let ?vals = "map (\<lambda>(c, v). PStr v) pairs"
  obtain l w1 where r: "readLine w = (l, w1)" by (cases "readLine w")
  note f1 = readLine_fields[OF r]
  have l: "l = countLine" using f1 assms(2) by (simp add: lineAt_def)
  have "Atoi (lineAt (stdin w1) 0) = Some choice" using f1 assms(2,5) by (simp add: lineAt_def)
  from selectTable_valid[OF this assms(6,7)] obtain w2 where
    s: "selectTable w1 = (choice - 1, w2)" "stdin w2 = tl (stdin w1)" "db w2 = db w1" "out w2 = out w1"
    by blast
  have st: "stdin w2 = concat (map (\<lambda>(c, v). [c, v]) pairs) @ rest" using s f1 assms(2) by simp
  define conds where
    "conds = map (\<lambda>(col, j). col @ '' = $'' @ itoa j) (zip ?cols [1..<length pairs + 1])"
  from filterLoop_ok[OF assms(8) st, of "length pairs" 0 "[]" "[]"] obtain w3 where
    i: "filterLoop 0 (length pairs) table [] [] w2 = (Some (conds, ?vals), w3)"
       "stdin w3 = rest" "db w3 = db w2"
    and o3: "out w3 = out w2 @ map (\<lambda>(c, v). Prompt (the (chosenColumn table c))) pairs"
    unfolding conds_def by auto
  have "sent (map (\<lambda>(c, v). Prompt (the (chosenColumn table c))) pairs) = []"
    by (induction pairs) auto
  with o3 have i4: "sent (out w3) = sent (out w2)" by simp
  have q: "''SELECT * FROM '' @ Name table @ '' WHERE '' @ Join conds '' AND '' @ '' ORDER BY id'' = ?q"
    by (simp add: specFilter_def conds_def)
  obtain r4 w4 where e: "dbQuery ?q ?vals w3 = (r4, w4)" by (cases "dbQuery ?q ?vals w3")
  note f4 = dbQuery_fields[OF e]
  have len: "(1::int) \<le> int (length pairs)" using assms(4) by (cases pairs) simp_all
  have "sent (out (filterData w)) = sent (out w4)"
    unfolding filterData_def
    using assms(3,4,6) len
    by (simp add: r l s table_def[symmetric] i q[simplified] e printGrid_out
          split: option.splits prod.splits)
  also have "\<dots> = sent (out w) @ [(Query, ?q, ?vals)]"
    using f4 i4 s f1 by simp
  finally have snt: "sent (out (filterData w)) = sent (out w) @ [(Query, ?q, ?vals)]" .
  have tm: "table \<in> set tables" using table_choice_in_catalog[OF assms(6,7)] by (simp add: table_def)
  have "set ?cols \<subseteq> set (Columns table)"
  proof
    fix x assume "x \<in> set ?cols"
    then obtain c v where cv: "(c, v) \<in> set pairs" "x = the (chosenColumn table c)" by auto
    with assms(8) obtain col where "chosenColumn table c = Some col" by auto
    with cv show "x \<in> set (Columns table)" using chosenColumn_mem by simp
  qed
  from pc_specFilter[OF tm this] snt show ?thesis by simp
qed


theorem filter_statement_witness:
  "sent (out (filterData \<lparr>stdin = [''2'', ''3'', ''6'', ''abc'', ''2'', ''x y''], db = [], out = []\<rparr>))
   = [(Query, ''SELECT * FROM components WHERE price = $1 AND name = $2 ORDER BY id'',
       [PStr ''abc'', PStr ''x y''])]
   \<and> placeholderCount ''SELECT * FROM components WHERE price = $1 AND name = $2 ORDER BY id'' = 2"
proof -
  let ?w = "\<lparr>stdin = [''2'', ''3'', ''6'', ''abc'', ''2'', ''x y''], db = [], out = []\<rparr>"
  let ?pairs = "[(''6'', ''abc''), (''2'', ''x y'')]"
  have "sent (out (filterData ?w))
        = sent (out ?w) @ [(Query,
              specFilter (Name (tables ! nat (3 - 1)))
                (map (\<lambda>(c, v). the (chosenColumn (tables ! nat (3 - 1)) c)) ?pairs),
              map (\<lambda>(c, v). PStr v) ?pairs)]
          \<and> placeholderCount
                (specFilter (Name (tables ! nat (3 - 1)))
                   (map (\<lambda>(c, v). the (chosenColumn (tables ! nat (3 - 1)) c)) ?pairs))
              = length ?pairs"
    by (rule filter_statement[where w = ?w and choice = 3 and pairs = ?pairs
          and countLine = "''2''" and tableLine = "''3''" and rest = "[]"])
       (simp_all add: Atoi_def isDigit_def chosenColumn_def filterCheck_def MatchString_def
          asciiAllowed_def tables_def)
  then show ?thesis
    by (simp add: specFilter_def chosenColumn_def Atoi_def isDigit_def tables_def itoa.simps
          digitChar_def)
qed

section \<open>Rendering: widths and lines\<close>

lemma widen_length [simp]: "length (widen strs ws) = min (length strs) (length ws)"
  by (simp add: widen_def)

lemma widen_nth:
  "i < length strs \<Longrightarrow> i < length ws \<Longrightarrow> widen strs ws ! i = max (length (strs ! i)) (ws ! i)"
  by (simp add: widen_def max_def)

lemma readRows_fold:
  "readRows n rows ws acc
   = (foldl (\<lambda>ws rowData. widen rowData ws) ws
        (map (map cellText) (filter (\<lambda>vals. length vals = n) rows)),
      acc @ map (map cellText) (filter (\<lambda>vals. length vals = n) rows))"
  by (induction rows arbitrary: ws acc) (simp_all add: Let_def)

lemma fold_widen_length:
  "\<forall>r\<in>set rs. length r = length ws \<Longrightarrow> length (foldl (\<lambda>ws rowData. widen rowData ws) ws rs) = length ws"
  by (induction rs arbitrary: ws) simp_all

lemma fold_widen_nth:
  assumes "\<forall>r\<in>set rs. length r = length ws" "i < length ws"
  shows "foldl (\<lambda>ws rowData. widen rowData ws) ws rs ! i
         = Max (set (ws ! i # map (\<lambda>rowData. length (rowData ! i)) rs))"
  using assms
proof (induction rs arbitrary: ws)
  case Nil
  then show ?case by simp
next
  case (Cons r rs)
  have "foldl (\<lambda>ws rowData. widen rowData ws) (widen r ws) rs ! i
        = Max (set (widen r ws ! i # map (\<lambda>rowData. length (rowData ! i)) rs))"
    by (rule Cons.IH) (use Cons.prems in simp_all)
  also have "widen r ws ! i = max (length (r ! i)) (ws ! i)"
    using Cons.prems by (simp add: widen_nth)
  also have "Max (set (max (length (r ! i)) (ws ! i) # map (\<lambda>rowData. length (rowData ! i)) rs))
             = Max (set (ws ! i # map (\<lambda>rowData. length (rowData ! i)) (r # rs)))"
  proof (cases "rs = []")
    case True
    then show ?thesis by (simp add: max.commute)
  next
    case False
    then have ne: "set (map (\<lambda>rowData. length (rowData ! i)) rs) \<noteq> {}" by simp
    show ?thesis using ne by (simp add: max.assoc max.commute max.left_commute)
  qed
  finally show ?case by simp
qed

lemma headerWidths_length [simp]: "length (headerWidths columns) = length columns"
  by (simp add: headerWidths_def)

lemma headerWidths_nth: "i < length columns \<Longrightarrow> headerWidths columns ! i = length (columns ! i)"
  by (simp add: headerWidths_def widen_nth)

lemma gridRows_length: "rowData \<in> set (gridRows columns rows) \<Longrightarrow> length rowData = length columns"
  by (auto simp: gridRows_def)

lemma readRows_grid:
  assumes "readRows (length columns) rows (headerWidths columns) [] = (ws, allRows)"
  shows "allRows = gridRows columns rows" "length ws = length columns"
    "i < length columns \<Longrightarrow> ws ! i = specWidth columns allRows i"
proof -
  have ws: "ws = foldl (\<lambda>ws rowData. widen rowData ws) (headerWidths columns) (gridRows columns rows)"
    and ar: "allRows = gridRows columns rows"
    using assms by (auto simp: readRows_fold gridRows_def)
  have len: "\<forall>r\<in>set (gridRows columns rows). length r = length (headerWidths columns)"
    by (simp add: gridRows_length)
  show "allRows = gridRows columns rows" by (rule ar)
  show "length ws = length columns" using fold_widen_length[OF len] ws by simp
  show "ws ! i = specWidth columns allRows i" if "i < length columns"
    using fold_widen_nth[OF len, of i] that ws ar by (simp add: specWidth_def headerWidths_nth)
qed

lemma Repeat_single: "Repeat [c] n = replicate n c"
  by (induction n) (simp_all add: Repeat_def)

lemma padRight_fits: "length str \<le> width \<Longrightarrow> padRight str width = specPad str width"
  by (auto simp: padRight_def specPad_def Repeat_single)

lemma specWidth_header: "length (columns ! i) \<le> specWidth columns allRows i"
  by (simp add: specWidth_def)

lemma specWidth_cell: "rowData \<in> set allRows \<Longrightarrow> length (rowData ! i) \<le> specWidth columns allRows i"
  by (simp add: specWidth_def)

lemma padAll_spec:
  assumes "length cells = n" "length ws = n" "\<forall>i<n. length (cells ! i) \<le> ws ! i"
  shows "padAll cells ws = map (\<lambda>i. specPad (cells ! i) (ws ! i)) [0..<n]"
  using assms by (intro nth_equalityI) (simp_all add: padAll_def padRight_fits)

lemma divider_spec:
  "dividerLine ws = Join (map (\<lambda>i. replicate (ws ! i) CHR ''-'') [0..<length ws]) ''-+-''"
proof -
  have "map (\<lambda>width. Repeat ''-'' width) ws = map (\<lambda>i. replicate (ws ! i) CHR ''-'') [0..<length ws]"
    by (intro nth_equalityI) (simp_all add: Repeat_single)
  then show ?thesis by (simp add: dividerLine_def)
qed

lemma printGrid_spec:
  assumes "readRows (length columns) rows (headerWidths columns) [] = (columnWidths, allRows)"
  shows "out (printGrid columns columnWidths allRows w) = out w @ map Println (specGrid columns allRows)"
proof -
  note g = readRows_grid[OF assms]
  let ?n = "length columns"
  have h: "headerLine columns columnWidths
           = CHR 0x0A # Join (map (\<lambda>i. specPad (columns ! i) (specWidth columns allRows i)) [0..<?n]) '' | ''"
  proof -
    have "padAll columns columnWidths = map (\<lambda>i. specPad (columns ! i) (columnWidths ! i)) [0..<?n]"
      by (rule padAll_spec) (use g in \<open>simp_all add: specWidth_header\<close>)
    also have "\<dots> = map (\<lambda>i. specPad (columns ! i) (specWidth columns allRows i)) [0..<?n]"
      by (rule map_cong[OF refl]) (use g(3) in simp)
    finally show ?thesis by (simp add: headerLine_def)
  qed
  have d: "dividerLine columnWidths
           = Join (map (\<lambda>i. replicate (specWidth columns allRows i) CHR ''-'') [0..<?n]) ''-+-''"
  proof -
    have e: "map (\<lambda>i. replicate (columnWidths ! i) CHR ''-'') [0..<?n]
          = map (\<lambda>i. replicate (specWidth columns allRows i) CHR ''-'') [0..<?n]"
      by (rule map_cong[OF refl]) (use g(3) in simp)
    show ?thesis by (simp only: divider_spec g(2) e)
  qed
  have r: "rowLine rowData columnWidths
           = Join (map (\<lambda>i. specPad (rowData ! i) (specWidth columns allRows i)) [0..<?n]) '' | ''"
    if "rowData \<in> set allRows" for rowData
  proof -
    have "length rowData = ?n" using that g(1) gridRows_length by blast
    then have "padAll rowData columnWidths = map (\<lambda>i. specPad (rowData ! i) (columnWidths ! i)) [0..<?n]"
      by (intro padAll_spec) (use g that in \<open>simp_all add: specWidth_cell\<close>)
    also have "\<dots> = map (\<lambda>i. specPad (rowData ! i) (specWidth columns allRows i)) [0..<?n]"
      by (rule map_cong[OF refl]) (use g(3) in simp)
    finally show ?thesis by (simp add: rowLine_def)
  qed
  show ?thesis
    using r by (simp add: printGrid_out h d specGrid_def)
qed

text \<open>
  What \<open>viewTable\<close> prints for a valid table choice and a result set: the statement
  (sent twice), the grid and the number of rows.
\<close>

lemma viewTable_prints:
  assumes "Atoi (lineAt (stdin w) 0) = Some choice" "1 \<le> choice" "choice \<le> int (length tables)"
    and "db w = DbRows columns rows # answers"
  shows "\<exists>p w'. viewTable w = Some (p, w')
           \<and> out w' = out w
               @ [DbCall Query (''SELECT * FROM '' @ Name (tables ! nat (choice - 1)) @ '' ORDER BY id'') [],
                  DbCall Query (''SELECT * FROM '' @ Name (tables ! nat (choice - 1)) @ '' ORDER BY id'') []]
               @ map Println (specGrid columns (gridRows columns rows))
               @ [Found (length (gridRows columns rows))]"
proof -
  let ?q = "''SELECT * FROM '' @ Name (tables ! nat (choice - 1)) @ '' ORDER BY id''"
  obtain l w1 where r: "readLine w = (l, w1)" by (cases "readLine w")
  note f1 = readLine_fields[OF r]
  have q1: "dbQuery ?q [] w1 = (Some (columns, rows), (say (DbCall Query ?q []) w1)\<lparr>db := answers\<rparr>)"
    using f1 assms(4) by (simp add: dbQuery_def answer_def)
  let ?w2 = "(say (DbCall Query ?q []) w1)\<lparr>db := answers\<rparr>"
  obtain ws allRows where rr: "readRows (length columns) rows (headerWidths columns) [] = (ws, allRows)"
    by (cases "readRows (length columns) rows (headerWidths columns) []")
  note g = readRows_grid[OF rr]
  obtain r2 w3 where q2: "dbQuery ?q [] ?w2 = (r2, w3)" by (cases "dbQuery ?q [] ?w2")
  note f3 = dbQuery_fields[OF q2]
  have "viewTable w = Some (if r2 = None then Panicked else Running,
                            say (Found (length allRows)) (printGrid columns ws allRows w3))"
    using assms(1,2,3) f1
    by (subst viewTable.simps) (simp add: r q1[simplified] rr q2[simplified] Let_def)
  moreover have "out (say (Found (length allRows)) (printGrid columns ws allRows w3))
        = out w @ [DbCall Query ?q [], DbCall Query ?q []]
            @ map Println (specGrid columns (gridRows columns rows))
            @ [Found (length (gridRows columns rows))]"
    using printGrid_spec[OF rr, of w3] g(1) f3 f1 by simp
  ultimately show ?thesis by blast
qed

text \<open>
  What \<open>filterData\<close> prints for a request that passes every check and a result set
  with at least one row: the prompts, the statement, the grid and the number of rows.
\<close>

lemma filterData_prints:
  fixes pairs :: "(string \<times> string) list" and choice :: int
  defines "table \<equiv> tables ! nat (choice - 1)"
  assumes "stdin w = countLine # tableLine # concat (map (\<lambda>(c, v). [c, v]) pairs) @ rest"
    and "Atoi countLine = Some (int (length pairs))" "pairs \<noteq> []"
    and "Atoi tableLine = Some choice" "1 \<le> choice" "choice \<le> int (length tables)"
    and "\<forall>(c, v)\<in>set pairs. chosenColumn table c \<noteq> None \<and> filterCheck v = None"
    and "db w = DbRows columns rows # answers" "gridRows columns rows \<noteq> []"
  shows "out (filterData w)
         = out w
           @ map (\<lambda>(c, v). Prompt (the (chosenColumn table c))) pairs
           @ [DbCall Query
                (specFilter (Name table) (map (\<lambda>(c, v). the (chosenColumn table c)) pairs))
                (map (\<lambda>(c, v). PStr v) pairs)]
           @ map Println (specGrid columns (gridRows columns rows))
           @ [Found (length (gridRows columns rows))]"
proof -
  let ?cols = "map (\<lambda>(c, v). the (chosenColumn table c)) pairs"
  let ?q = "specFilter (Name table) ?cols"
  let ?vals = "map (\<lambda>(c, v). PStr v) pairs"
  obtain l w1 where r: "readLine w = (l, w1)" by (cases "readLine w")
  note f1 = readLine_fields[OF r]
  have l: "l = countLine" using f1 assms(2) by (simp add: lineAt_def)
  have "Atoi (lineAt (stdin w1) 0) = Some choice" using f1 assms(2,5) by (simp add: lineAt_def)
  from selectTable_valid[OF this assms(6,7)] obtain w2 where
    s: "selectTable w1 = (choice - 1, w2)" "stdin w2 = tl (stdin w1)" "db w2 = db w1" "out w2 = out w1"
    by blast
  have st: "stdin w2 = concat (map (\<lambda>(c, v). [c, v]) pairs) @ rest" using s f1 assms(2) by simp
  define conds where
    "conds = map (\<lambda>(col, j). col @ '' = $'' @ itoa j) (zip ?cols [1..<length pairs + 1])"
  from filterLoop_ok[OF assms(8) st, of "length pairs" 0 "[]" "[]"] obtain w3 where
    i: "filterLoop 0 (length pairs) table [] [] w2 = (Some (conds, ?vals), w3)"
       "stdin w3 = rest" "db w3 = db w2"
    and o3: "out w3 = out w2 @ map (\<lambda>(c, v). Prompt (the (chosenColumn table c))) pairs"
    unfolding conds_def by auto
  have q: "''SELECT * FROM '' @ Name table @ '' WHERE '' @ Join conds '' AND '' @ '' ORDER BY id'' = ?q"
    by (simp add: specFilter_def conds_def)
  let ?w4 = "(say (DbCall Query ?q ?vals) w3)\<lparr>db := answers\<rparr>"
  have e: "dbQuery ?q ?vals w3 = (Some (columns, rows), ?w4)"
    using i(3) s(3) f1(3) assms(9) by (simp add: dbQuery_def answer_def)
  obtain ws allRows where rr: "readRows (length columns) rows (headerWidths columns) [] = (ws, allRows)"
    by (cases "readRows (length columns) rows (headerWidths columns) []")
  note g = readRows_grid[OF rr]
  have ne: "allRows \<noteq> []" using g(1) assms(10) by simp
  have len: "(1::int) \<le> int (length pairs)" using assms(4) by (cases pairs) simp_all
  have "filterData w = say (Found (length allRows)) (printGrid columns ws allRows ?w4)"
    unfolding filterData_def
    using assms(3,4,6) len ne
    by (simp add: r l s table_def[symmetric] i q[simplified] e[simplified] rr)
  then have "out (filterData w) = out ?w4 @ map Println (specGrid columns allRows) @ [Found (length allRows)]"
    using printGrid_spec[OF rr, of ?w4] by simp
  then show ?thesis using o3 s(4) f1(4) g(1) by simp
qed

text \<open>
  Claim C7. For every result set that \<open>viewTable\<close> or \<open>filterData\<close> renders, the lines
  printed are those of \<open>specGrid\<close> for the rows of the result that have one value
  for each column, NULL read as the empty text: the width of each column is the maximum
  of the length of its header and of the lengths of all its cells; the header line
  holds each header padded to the width of its column, the headers joined by \<open>" | "\<close>;
  the divider holds as many dashes for each column as its width, joined by \<open>"-+-"\<close>;
  then comes one line for each row, its cells padded and joined like the headers. No
  cell is cut. \<open>viewTable\<close> renders the answer to the statement of a valid table choice
  (whatever the answer to its second call is), \<open>filterData\<close> the answer to a filter
  that passed all checks, when it has at least one row.
\<close>

theorem grid_rendering:
  fixes pairs :: "(string \<times> string) list" and choice fchoice :: int
  shows
    "(Atoi (lineAt (stdin w) 0) = Some choice \<and> 1 \<le> choice \<and> choice \<le> int (length tables)
        \<and> db w = DbRows columns rows # answers
      \<longrightarrow> (\<exists>p w'. viewTable w = Some (p, w')
            \<and> out w' = out w
                @ [DbCall Query (''SELECT * FROM '' @ Name (tables ! nat (choice - 1)) @ '' ORDER BY id'') [],
                   DbCall Query (''SELECT * FROM '' @ Name (tables ! nat (choice - 1)) @ '' ORDER BY id'') []]
                @ map Println (specGrid columns (gridRows columns rows))
                @ [Found (length (gridRows columns rows))]))
     \<and> (stdin v = countLine # tableLine # concat (map (\<lambda>(c, x). [c, x]) pairs) @ rest
        \<and> Atoi countLine = Some (int (length pairs)) \<and> pairs \<noteq> []
        \<and> Atoi tableLine = Some fchoice \<and> 1 \<le> fchoice \<and> fchoice \<le> int (length tables)
        \<and> (\<forall>(c, x)\<in>set pairs. chosenColumn (tables ! nat (fchoice - 1)) c \<noteq> None \<and> filterCheck x = None)
        \<and> db v = DbRows fcolumns frows # fanswers \<and> gridRows fcolumns frows \<noteq> []
      \<longrightarrow> out (filterData v)
          = out v
            @ map (\<lambda>(c, x). Prompt (the (chosenColumn (tables ! nat (fchoice - 1)) c))) pairs
            @ [DbCall Query
                 (specFilter (Name (tables ! nat (fchoice - 1)))
                    (map (\<lambda>(c, x). the (chosenColumn (tables ! nat (fchoice - 1)) c)) pairs))
                 (map (\<lambda>(c, x). PStr x) pairs)]
            @ map Println (specGrid fcolumns (gridRows fcolumns frows))
            @ [Found (length (gridRows fcolumns frows))])"
proof (intro conjI impI)
  assume "Atoi (lineAt (stdin w) 0) = Some choice \<and> 1 \<le> choice \<and> choice \<le> int (length tables)
        \<and> db w = DbRows columns rows # answers"
  then show "\<exists>p w'. viewTable w = Some (p, w')
            \<and> out w' = out w
                @ [DbCall Query (''SELECT * FROM '' @ Name (tables ! nat (choice - 1)) @ '' ORDER BY id'') [],
                   DbCall Query (''SELECT * FROM '' @ Name (tables ! nat (choice - 1)) @ '' ORDER BY id'') []]
                @ map Println (specGrid columns (gridRows columns rows))
                @ [Found (length (gridRows columns rows))]"
    using viewTable_prints[of w choice columns rows answers] by blast
next
  assume a: "stdin v = countLine # tableLine # concat (map (\<lambda>(c, x). [c, x]) pairs) @ rest
        \<and> Atoi countLine = Some (int (length pairs)) \<and> pairs \<noteq> []
        \<and> Atoi tableLine = Some fchoice \<and> 1 \<le> fchoice \<and> fchoice \<le> int (length tables)
        \<and> (\<forall>(c, x)\<in>set pairs. chosenColumn (tables ! nat (fchoice - 1)) c \<noteq> None \<and> filterCheck x = None)
        \<and> db v = DbRows fcolumns frows # fanswers \<and> gridRows fcolumns frows \<noteq> []"
  show "out (filterData v)
          = out v
            @ map (\<lambda>(c, x). Prompt (the (chosenColumn (tables ! nat (fchoice - 1)) c))) pairs
            @ [DbCall Query
                 (specFilter (Name (tables ! nat (fchoice - 1)))
                    (map (\<lambda>(c, x). the (chosenColumn (tables ! nat (fchoice - 1)) c)) pairs))
                 (map (\<lambda>(c, x). PStr x) pairs)]
            @ map Println (specGrid fcolumns (gridRows fcolumns frows))
            @ [Found (length (gridRows fcolumns frows))]"
    by (rule filterData_prints[of v countLine tableLine pairs rest fchoice fcolumns frows fanswers])
       (use a in simp_all)
qed

theorem grid_rendering_witness:
  "(\<exists>p w'. viewTable \<lparr>stdin = [''1''],
                       db = [DbRows [''id'', ''name''] [[Some ''1'', Some ''abc''], [Some ''22'', None], [Some ''x'']],
                             DbRows [] []],
                       out = []\<rparr> = Some (p, w')
      \<and> out w' = [DbCall Query ''SELECT * FROM categories ORDER BY id'' [],
                  DbCall Query ''SELECT * FROM categories ORDER BY id'' [],
                  Println (CHR 0x0A # ''id | name''), Println ''---+-----'',
                  Println ''1  | abc '', Println ''22 |     '', Found 2])
   \<and> out (filterData \<lparr>stdin = [''1'', ''1'', ''2'', ''abc''],
                       db = [DbRows [''id'', ''name''] [[Some ''1'', Some ''abc''], [Some ''22'', None], [Some ''x'']]],
                       out = []\<rparr>)
     = [Prompt ''name'',
        DbCall Query ''SELECT * FROM categories WHERE name = $1 ORDER BY id'' [PStr ''abc''],
        Println (CHR 0x0A # ''id | name''), Println ''---+-----'',
        Println ''1  | abc '', Println ''22 |     '', Found 2]"
proof -
  let ?columns = "[''id'', ''name'']"
  let ?rows = "[[Some ''1'', Some ''abc''], [Some ''22'', None], [Some ''x'']]"
  let ?w = "\<lparr>stdin = [''1''], db = [DbRows ?columns ?rows, DbRows [] []], out = []\<rparr>"
  let ?v = "\<lparr>stdin = [''1'', ''1'', ''2'', ''abc''], db = [DbRows ?columns ?rows], out = []\<rparr>"
  have one: "Atoi ''1'' = Some 1" and two: "Atoi ''2'' = Some 2" by (simp_all add: Atoi_def isDigit_def)
  have g: "gridRows ?columns ?rows = [[''1'', ''abc''], [''22'', []]]"
    by (simp add: gridRows_def cellText_def)
  have gl: "length (gridRows ?columns ?rows) = 2" by (simp add: g)
  have s: "specGrid ?columns (gridRows ?columns ?rows)
           = [CHR 0x0A # ''id | name'', ''---+-----'', ''1  | abc '', ''22 |     '']"
    by (simp add: g specGrid_def specWidth_def specPad_def)
  have ne: "gridRows ?columns ?rows \<noteq> []" by (simp add: g)
  have n: "Name (tables ! 0) = ''categories''" and lt: "Suc 0 \<le> length tables"
    by (simp_all add: tables_def)
  have c: "chosenColumn (tables ! 0) ''2'' = Some ''name''"
    by (simp add: chosenColumn_def two tables_def)
  have f: "filterCheck ''abc'' = None" by (simp add: filterCheck_def MatchString_def asciiAllowed_def)
  have q: "specFilter ''categories'' [''name''] = ''SELECT * FROM categories WHERE name = $1 ORDER BY id''"
    by (simp add: specFilter_def itoa.simps digitChar_def)
  note th = grid_rendering[of ?w 1 ?columns ?rows "[DbRows [] []]" ?v "''1''" "''1''" "[(''2'', ''abc'')]" "[]" 1
               ?columns ?rows "[]"]
  have v1: "\<exists>p w'. viewTable ?w = Some (p, w')
      \<and> out w' = [DbCall Query ''SELECT * FROM categories ORDER BY id'' [],
                  DbCall Query ''SELECT * FROM categories ORDER BY id'' [],
                  Println (CHR 0x0A # ''id | name''), Println ''---+-----'',
                  Println ''1  | abc '', Println ''22 |     '', Found 2]"
    using th by (simp add: lineAt_def one n lt gl s)
  have v2: "out (filterData ?v)
     = [Prompt ''name'',
        DbCall Query ''SELECT * FROM categories WHERE name = $1 ORDER BY id'' [PStr ''abc''],
        Println (CHR 0x0A # ''id | name''), Println ''---+-----'',
        Println ''1  | abc '', Println ''22 |     '', Found 2]"
    using th by (simp add: one c f n lt gl s ne q)
  from v1 v2 show ?thesis by blast
qed

section \<open>InsertRelated: the chained inserts\<close>

lemma insertStatement_spec: "insertStatement table cols = specInsert (Name table) cols"
  unfolding insertStatement_def specInsert_def placeholders_def Let_def
  using map_shift_upt[of "\<lambda>j. ''$'' @ itoa j" 1 "length cols"] by simp

lemma insertReturningStatement_spec:
  "insertReturningStatement table cols = specInsert (Name table) cols @ '' RETURNING id''"
  unfolding insertReturningStatement_def specInsert_def placeholders_def Let_def
  using map_shift_upt[of "\<lambda>j. ''$'' @ itoa j" 1 "length cols"] by simp

lemma readLine_nonempty:
  "readLine w = (l, w') \<Longrightarrow> l \<noteq> [] \<Longrightarrow> stdin w = l # stdin w'"
  by (auto simp: readLine_def split: list.splits)

lemma MatchString_nonempty: "MatchString l \<Longrightarrow> l \<noteq> []"
  by (simp add: MatchString_def)

lemma firstCheck_nonempty: "firstCheck c l = None \<Longrightarrow> l \<noteq> []"
  by (auto simp: firstCheck_def MatchString_def split: if_splits)

lemma secondCheck_nonempty: "secondCheck c l = None \<Longrightarrow> l \<noteq> []"
  by (auto simp: secondCheck_def MatchString_def split: if_splits)

lemma readFirst_ok:
  assumes "readFirst cols vals w = (Some vals', w')"
  shows "\<exists>typed. length typed = length cols \<and> stdin w = typed @ stdin w'
           \<and> vals' = vals @ map PStr typed \<and> out w' = out w @ map Prompt cols \<and> db w' = db w"
  using assms
proof (induction cols arbitrary: vals w)
  case Nil
  then show ?case by simp
next
  case (Cons c cols)
  obtain l w1 where r: "readLine (say (Prompt c) w) = (l, w1)"
    by (cases "readLine (say (Prompt c) w)")
  note f = readLine_fields[OF r]
  from Cons.prems r have ok: "firstCheck c l = None"
    and rec: "readFirst cols (vals @ [PStr l]) w1 = (Some vals', w')"
    by (auto split: option.splits)
  from Cons.IH[OF rec] obtain typed where t: "length typed = length cols"
    "stdin w1 = typed @ stdin w'" "vals' = (vals @ [PStr l]) @ map PStr typed"
    "out w' = out w1 @ map Prompt cols" "db w' = db w1" by blast
  have "stdin w = l # stdin w1"
    using readLine_nonempty[OF r firstCheck_nonempty[OF ok]] by simp
  with t f(3,4) have "length (l # typed) = length (c # cols) \<and> stdin w = (l # typed) @ stdin w'
      \<and> vals' = vals @ map PStr (l # typed) \<and> out w' = out w @ map Prompt (c # cols) \<and> db w' = db w"
    by simp
  then show ?case by blast
qed

lemma readSecond_ok:
  assumes "readSecond fk n cols vals w = (Some vals', w')"
  shows "\<exists>typed. length typed = length (filter (\<lambda>c. c \<noteq> fk) cols) \<and> stdin w = typed @ stdin w'
           \<and> vals' = vals @ specSecondParams fk n cols typed
           \<and> out w' = out w @ map (\<lambda>c. if c = fk then AutoSet c n else Prompt c) cols
           \<and> db w' = db w"
  using assms
proof (induction cols arbitrary: vals w)
  case Nil
  then show ?case by simp
next
  case (Cons c cols)
  show ?case
  proof (cases "c = fk")
    case True
    with Cons.prems have rec: "readSecond fk n cols (vals @ [PInt n]) (say (AutoSet c n) w) = (Some vals', w')"
      by simp
    from Cons.IH[OF rec] obtain typed where
      "length typed = length (filter (\<lambda>c. c \<noteq> fk) cols)"
      "stdin (say (AutoSet c n) w) = typed @ stdin w'"
      "vals' = (vals @ [PInt n]) @ specSecondParams fk n cols typed"
      "out w' = out (say (AutoSet c n) w) @ map (\<lambda>c. if c = fk then AutoSet c n else Prompt c) cols"
      "db w' = db (say (AutoSet c n) w)" by blast
    with True have "length typed = length (filter (\<lambda>c. c \<noteq> fk) (c # cols)) \<and> stdin w = typed @ stdin w'
           \<and> vals' = vals @ specSecondParams fk n (c # cols) typed
           \<and> out w' = out w @ map (\<lambda>c. if c = fk then AutoSet c n else Prompt c) (c # cols)
           \<and> db w' = db w" by simp
    then show ?thesis by blast
  next
    case False
    obtain l w1 where r: "readLine (say (Prompt c) w) = (l, w1)"
      by (cases "readLine (say (Prompt c) w)")
    note f = readLine_fields[OF r]
    from Cons.prems r False have ok: "secondCheck c l = None"
      and rec: "readSecond fk n cols (vals @ [PStr l]) w1 = (Some vals', w')"
      by (auto split: option.splits)
    from Cons.IH[OF rec] obtain typed where t:
      "length typed = length (filter (\<lambda>c. c \<noteq> fk) cols)"
      "stdin w1 = typed @ stdin w'"
      "vals' = (vals @ [PStr l]) @ specSecondParams fk n cols typed"
      "out w' = out w1 @ map (\<lambda>c. if c = fk then AutoSet c n else Prompt c) cols"
      "db w' = db w1" by blast
    have "stdin w = l # stdin w1"
      using readLine_nonempty[OF r secondCheck_nonempty[OF ok]] by simp
    with t f(3,4) False have "length (l # typed) = length (filter (\<lambda>c. c \<noteq> fk) (c # cols))
           \<and> stdin w = (l # typed) @ stdin w'
           \<and> vals' = vals @ specSecondParams fk n (c # cols) (l # typed)
           \<and> out w' = out w @ map (\<lambda>c. if c = fk then AutoSet c n else Prompt c) (c # cols)
           \<and> db w' = db w" by simp
    then show ?thesis by blast
  qed
qed

lemma dbQueryRow_Some:
  assumes "dbQueryRow q a w = (Some n, w')"
  shows "db w = DbId n # db w'" "out w' = out w @ [DbCall QueryRow q a]" "stdin w' = stdin w"
  using assms by (auto simp: dbQueryRow_def answer_def split: list.splits dbresp.splits)

lemma dbExec_Some:
  assumes "dbExec q a w = (Some n, w')"
  shows "db w = DbAffected n # db w'" "out w' = out w @ [DbCall Exec q a]" "stdin w' = stdin w"
  using assms by (auto simp: dbExec_def answer_def split: list.splits dbresp.splits)

lemma relation_foreign_key:
  assumes "relation \<in> set relatedTables" "relationTables relation = Some (table1, table2)"
  shows "foreignKeyColumn table1 table2 \<in> set (tl (Columns table2))"
    "table1 \<in> set tables" "table2 \<in> set tables"
  using assms
  by (auto simp: relatedTables_def relationTables_def Split_def relationSep_def splitFrom.simps
        tables_def zeroTable_def foreignKeyColumn_def)

text \<open>
  Claim C4. One record of the InsertRelated flow on a configured relation that reaches
  its end. The first statement is the insert into the first table with
  \<open>RETURNING id\<close> appended, and the database answers it with an id. For the second
  table the operator is asked for every column after \<open>id\<close> except the resolved
  foreign-key column; that column, which is one of the columns of the second table, is
  announced as set automatically and takes the returned id as its parameter, without a
  prompt. The second statement is the insert into the second table.
\<close>

theorem related_insert_chain:
  fixes table1 table2 :: TableInfo
  defines "cols1 \<equiv> tl (Columns table1)" and "cols2 \<equiv> tl (Columns table2)"
    and "fk \<equiv> foreignKeyColumn table1 table2"
  assumes "relation \<in> set relatedTables" "relationTables relation = Some (table1, table2)"
    and "relatedRecord table1 table2 w = (True, w')"
  shows "\<exists>typed1 typed2 n a.
           stdin w = typed1 @ typed2 @ stdin w'
         \<and> db w = DbId n # DbAffected a # db w'
         \<and> length typed1 = length cols1
         \<and> length typed2 = length (filter (\<lambda>c. c \<noteq> fk) cols2)
         \<and> fk \<in> set cols2
         \<and> out w' = out w
             @ map Prompt cols1
             @ [DbCall QueryRow (specInsert (Name table1) cols1 @ '' RETURNING id'') (map PStr typed1),
                Inserted (Name table1) n, ForeignKey (Name table2) fk n]
             @ map (\<lambda>c. if c = fk then AutoSet c n else Prompt c) cols2
             @ [DbCall Exec (specInsert (Name table2) cols2) (specSecondParams fk n cols2 typed2),
                AddedRelated (Name table2)]"
proof -
  from assms(6) obtain values1 w1 where
    a: "readFirst cols1 [] w = (Some values1, w1)"
    by (auto simp: relatedRecord_def cols1_def Let_def split: prod.splits option.splits)
  from readFirst_ok[OF a] obtain typed1 where t1: "length typed1 = length cols1"
    "stdin w = typed1 @ stdin w1" "values1 = map PStr typed1" "out w1 = out w @ map Prompt cols1"
    "db w1 = db w" by auto
  let ?q1 = "specInsert (Name table1) cols1 @ '' RETURNING id''"
  from assms(6) a obtain n w2 where
    b: "dbQueryRow ?q1 values1 w1 = (Some n, w2)"
    by (auto simp: relatedRecord_def cols1_def[symmetric] insertReturningStatement_spec Let_def
          split: prod.splits option.splits)
  note f2 = dbQueryRow_Some[OF b]
  let ?w4 = "say (ForeignKey (Name table2) fk n) (say (Inserted (Name table1) n) w2)"
  from assms(6) a b obtain values2 w5 where
    c: "readSecond fk n cols2 [] ?w4 = (Some values2, w5)"
    by (auto simp: relatedRecord_def cols1_def[symmetric] cols2_def[symmetric] fk_def[symmetric]
          insertReturningStatement_spec Let_def split: prod.splits option.splits)
  from readSecond_ok[OF c] obtain typed2 where t2:
    "length typed2 = length (filter (\<lambda>c. c \<noteq> fk) cols2)" "stdin ?w4 = typed2 @ stdin w5"
    "values2 = specSecondParams fk n cols2 typed2"
    "out w5 = out ?w4 @ map (\<lambda>c. if c = fk then AutoSet c n else Prompt c) cols2"
    "db w5 = db ?w4" by auto
  let ?q2 = "specInsert (Name table2) cols2"
  from assms(6) a b c obtain m w6 where
    d: "dbExec ?q2 values2 w5 = (Some m, w6)" and w': "w' = say (AddedRelated (Name table2)) w6"
    by (auto simp: relatedRecord_def cols1_def[symmetric] cols2_def[symmetric] fk_def[symmetric]
          insertReturningStatement_spec insertStatement_spec Let_def
          split: prod.splits option.splits)
  note f6 = dbExec_Some[OF d]
  have fkmem: "fk \<in> set cols2"
    using relation_foreign_key(1)[OF assms(4,5)] by (simp add: fk_def cols2_def)
  have "stdin w = typed1 @ typed2 @ stdin w'" using t1 t2 f2 f6 w' by simp
  moreover have "db w = DbId n # DbAffected m # db w'" using t1 t2 f2 f6 w' by simp
  moreover have "out w' = out w
             @ map Prompt cols1
             @ [DbCall QueryRow ?q1 (map PStr typed1),
                Inserted (Name table1) n, ForeignKey (Name table2) fk n]
             @ map (\<lambda>c. if c = fk then AutoSet c n else Prompt c) cols2
             @ [DbCall Exec ?q2 (specSecondParams fk n cols2 typed2),
                AddedRelated (Name table2)]"
    using t1 t2 f2 f6 w' by simp
  ultimately show ?thesis using t1(1) t2(1) fkmem by blast
qed


theorem related_insert_chain_witness:
  "relatedTables ! 0 \<in> set relatedTables
   \<and> relationTables (relatedTables ! 0) = Some (tables ! 2, tables ! 3)
   \<and> (\<exists>w'. relatedRecord (tables ! 2) (tables ! 3) \<lparr>stdin = [''nm'', ''1'', ''2'', ''mod'', ''12'', ''5'', ''wh''], db = [DbId 7, DbAffected 1], out = []\<rparr> = (True, w')
         \<and> stdin w' = [] \<and> db w' = []
         \<and> sent (out w')
            = [(QueryRow, ''INSERT INTO components (name, category_id, manufacturer_id, model, price) VALUES ($1, $2, $3, $4, $5) RETURNING id'',
                [PStr ''nm'', PStr ''1'', PStr ''2'', PStr ''mod'', PStr ''12'']),
               (Exec, ''INSERT INTO stock (component_id, quantity, warehouse_location) VALUES ($1, $2, $3)'',
                [PInt 7, PStr ''5'', PStr ''wh''])]
         \<and> (\<exists>typed1 typed2 n a.
               stdin \<lparr>stdin = [''nm'', ''1'', ''2'', ''mod'', ''12'', ''5'', ''wh''], db = [DbId 7, DbAffected 1], out = []\<rparr> = typed1 @ typed2 @ stdin w'
             \<and> db \<lparr>stdin = [''nm'', ''1'', ''2'', ''mod'', ''12'', ''5'', ''wh''], db = [DbId 7, DbAffected 1], out = []\<rparr> = DbId n # DbAffected a # db w'
             \<and> length typed1 = length (tl (Columns (tables ! 2)))
             \<and> length typed2
                 = length (filter (\<lambda>c. c \<noteq> foreignKeyColumn (tables ! 2) (tables ! 3))
                             (tl (Columns (tables ! 3))))
             \<and> foreignKeyColumn (tables ! 2) (tables ! 3) \<in> set (tl (Columns (tables ! 3)))
             \<and> out w' = out \<lparr>stdin = [''nm'', ''1'', ''2'', ''mod'', ''12'', ''5'', ''wh''], db = [DbId 7, DbAffected 1], out = []\<rparr>
                 @ map Prompt (tl (Columns (tables ! 2)))
                 @ [DbCall QueryRow
                      (specInsert (Name (tables ! 2)) (tl (Columns (tables ! 2))) @ '' RETURNING id'')
                      (map PStr typed1),
                    Inserted (Name (tables ! 2)) n,
                    ForeignKey (Name (tables ! 3)) (foreignKeyColumn (tables ! 2) (tables ! 3)) n]
                 @ map (\<lambda>c. if c = foreignKeyColumn (tables ! 2) (tables ! 3) then AutoSet c n
                             else Prompt c) (tl (Columns (tables ! 3)))
                 @ [DbCall Exec (specInsert (Name (tables ! 3)) (tl (Columns (tables ! 3))))
                      (specSecondParams (foreignKeyColumn (tables ! 2) (tables ! 3)) n
                         (tl (Columns (tables ! 3))) typed2),
                    AddedRelated (Name (tables ! 3))]))"
proof -
  let ?w = "\<lparr>stdin = [''nm'', ''1'', ''2'', ''mod'', ''12'', ''5'', ''wh''], db = [DbId 7, DbAffected 1], out = []\<rparr>"
  have a: "relatedTables ! 0 \<in> set relatedTables" by (simp add: relatedTables_def)
  have b: "relationTables (relatedTables ! 0) = Some (tables ! 2, tables ! 3)"
    by (simp add: relatedTables_def relationTables_def Split_def relationSep_def splitFrom.simps
          tables_def zeroTable_def)
  obtain ok w' where c: "relatedRecord (tables ! 2) (tables ! 3) ?w = (ok, w')"
    by (cases "relatedRecord (tables ! 2) (tables ! 3) ?w")
  have d: "ok" "stdin w' = []" "db w' = []"
    "sent (out w')
            = [(QueryRow, ''INSERT INTO components (name, category_id, manufacturer_id, model, price) VALUES ($1, $2, $3, $4, $5) RETURNING id'',
                [PStr ''nm'', PStr ''1'', PStr ''2'', PStr ''mod'', PStr ''12'']),
               (Exec, ''INSERT INTO stock (component_id, quantity, warehouse_location) VALUES ($1, $2, $3)'',
                [PInt 7, PStr ''5'', PStr ''wh''])]"
    using c
    by (auto simp: relatedRecord_def tables_def readLine_def firstCheck_def secondCheck_def
          MatchString_def asciiAllowed_def Atoi_def isDigit_def insertReturningStatement_def
          insertStatement_def itoa.simps digitChar_def dbQueryRow_def dbExec_def answer_def
          foreignKeyColumn_def Let_def)
  from c d(1) have c': "relatedRecord (tables ! 2) (tables ! 3) ?w = (True, w')" by simp
  from related_insert_chain[OF a b c'] a b c' d(2,3,4) show ?thesis by blast
qed

section \<open>The numeric rule\<close>

text \<open>
  Claim C2 says that every operation rejects a value for a numeric column that is no
  integer. \<open>filterData\<close> does not: after the white list it has no check of the number,
  which \<open>updateData\<close> and \<open>insertData\<close> have. Here the operator filters the table
  components by \<open>price\<close> with the value \<open>abc\<close>: the statement is sent with that value
  and no message about a number is printed. Update and Insert, given the same value
  for the same column, report that the field must be a number and send nothing.
\<close>

theorem filter_accepts_non_number:
  "numericColumn ''price'' \<and> MatchString ''abc'' \<and> Atoi ''abc'' = None
   \<and> out (filterData \<lparr>stdin = [''1'', ''3'', ''6'', ''abc''], db = [DbRows [''id''] []], out = []\<rparr>)
     = [Prompt ''price'',
        DbCall Query ''SELECT * FROM components WHERE price = $1 ORDER BY id'' [PStr ''abc''],
        NoRecords]
   \<and> out (updateData \<lparr>stdin = [''1'', ''3'', ''7'', ''5'', ''abc''], db = [DbAffected 1], out = []\<rparr>)
     = [AskId 1, Prompt ''price'', Report (NotANumber ''price'')]
   \<and> out (insertData \<lparr>stdin = [''1'', ''3'', ''nm'', ''1'', ''2'', ''m'', ''abc''],
                       db = [DbAffected 1], out = []\<rparr>)
     = [Prompt ''name'', Prompt ''category_id'', Prompt ''manufacturer_id'', Prompt ''model'',
        Prompt ''price'', Report (NotANumber ''price'')]"
proof -
  have a: "numericColumn ''price''" "MatchString ''abc''" "Atoi ''abc'' = None"
    by (simp_all add: numericColumn_def MatchString_def asciiAllowed_def Atoi_def isDigit_def)
  have f: "out (filterData \<lparr>stdin = [''1'', ''3'', ''6'', ''abc''], db = [DbRows [''id''] []], out = []\<rparr>)
     = [Prompt ''price'',
        DbCall Query ''SELECT * FROM components WHERE price = $1 ORDER BY id'' [PStr ''abc''],
        NoRecords]"
    by (simp add: Atoi_def isDigit_def filterData_def readLine_def selectTable_def
        tables_def filterLoop.simps selectColumn_def filterCheck_def MatchString_def asciiAllowed_def
        itoa.simps digitChar_def dbQuery_def answer_def say_def headerWidths_def widen_def)
  have u: "out (updateData \<lparr>stdin = [''1'', ''3'', ''7'', ''5'', ''abc''], db = [DbAffected 1], out = []\<rparr>)
     = [AskId 1, Prompt ''price'', Report (NotANumber ''price'')]"
    by (simp add: Atoi_def isDigit_def updateData_def readLine_def selectTable_def tables_def
        readIds.simps updateCheck_def MatchString_def asciiAllowed_def say_def Let_def)
  have i: "out (insertData \<lparr>stdin = [''1'', ''3'', ''nm'', ''1'', ''2'', ''m'', ''abc''],
                       db = [DbAffected 1], out = []\<rparr>)
     = [Prompt ''name'', Prompt ''category_id'', Prompt ''manufacturer_id'', Prompt ''model'',
        Prompt ''price'', Report (NotANumber ''price'')]"
    by (simp add: Atoi_def isDigit_def insertData_def readLine_def selectTable_def tables_def
        insertLoop.simps insertCheck_def MatchString_def asciiAllowed_def say_def Let_def)
  from a f u i show ?thesis by simp
qed

text \<open>
  The checks of the operations, each on its own: for a value that matches the white
  list and a numeric column, the checks of Update and Insert, the check of the first
  table of InsertRelated, and the check of the second table for \<open>quantity\<close> and
  \<open>price\<close>, reject the value exactly when \<open>strconv.Atoi\<close> fails on it. The check of
  Filter lets it pass.
\<close>

lemma first_table_columns:
  "firstTableColumn column
   = (column \<in> set [''name'', ''category_id'', ''manufacturer_id'', ''model'', ''price'',
                      ''description'', ''country'', ''founded_year''])"
  by (auto simp: firstTableColumn_def relatedTables_def relationTables_def Split_def relationSep_def
        splitFrom.simps tables_def zeroTable_def)

lemma checks_numeric_rule:
  assumes "numericColumn column" "MatchString val"
  shows "updateCheck column val = (if Atoi val = None then Some (NotANumber column) else None)
       \<and> insertCheck column val = (if Atoi val = None then Some (NotANumber column) else None)
       \<and> (firstTableColumn column
            \<longrightarrow> firstCheck column val = (if Atoi val = None then Some (NotANumber column) else None))
       \<and> (column = ''quantity'' \<or> column = ''price''
            \<longrightarrow> secondCheck column val = (if Atoi val = None then Some (NotANumber column) else None))
       \<and> filterCheck val = None"
proof -
  have u: "updateCheck column val = (if Atoi val = None then Some (NotANumber column) else None)"
    using assms by (simp add: updateCheck_def numericColumn_def)
  have i: "insertCheck column val = (if Atoi val = None then Some (NotANumber column) else None)"
    using assms by (simp add: insertCheck_def numericColumn_def)
  have f: "firstCheck column val = (if Atoi val = None then Some (NotANumber column) else None)"
    if "firstTableColumn column"
    using assms that by (auto simp: firstCheck_def numericColumn_def first_table_columns)
  have s: "secondCheck column val = (if Atoi val = None then Some (NotANumber column) else None)"
    if "column = ''quantity'' \<or> column = ''price''"
    using assms that by (auto simp: secondCheck_def)
  have g: "filterCheck val = None" using assms by (simp add: filterCheck_def)
  from u i f s g show ?thesis by blast
qed

text \<open>
  The white list comes first: a value that does not match it is rejected with
  \<open>InvalidCharacters\<close>, also when it is an integer for \<open>strconv.Atoi\<close>, as \<open>+5\<close> is.
\<close>

lemma white_list_first:
  "\<not> MatchString val \<Longrightarrow>
     updateCheck column val = Some InvalidCharacters
     \<and> insertCheck column val = Some InvalidCharacters
     \<and> firstCheck column val = Some InvalidCharacters
     \<and> secondCheck column val = Some InvalidCharacters
     \<and> filterCheck val = Some InvalidCharacters"
  by (simp add: updateCheck_def insertCheck_def firstCheck_def secondCheck_def filterCheck_def)

lemma plus_five: "Atoi ''+5'' = Some 5 \<and> \<not> MatchString ''+5''"
  by (simp add: Atoi_def isDigit_def MatchString_def asciiAllowed_def)

text \<open>
  For the second table of InsertRelated the source names two numeric columns only.
  With the relation of categories and components the operator is asked for
  \<open>manufacturer_id\<close>, and a text that is no number passes: it is sent as a parameter of
  the second insert.
\<close>

lemma second_table_unchecked:
  "numericColumn ''manufacturer_id'' \<and> Atoi ''abc'' = None
   \<and> sent (out (insertRelatedData
        \<lparr>stdin = [''1'', ''2'', ''cat'', ''desc'', ''nm'', ''abc'', ''m'', ''10''],
           db = [DbId 4, DbAffected 1], out = []\<rparr>))
     = [(QueryRow, ''INSERT INTO categories (name, description) VALUES ($1, $2) RETURNING id'',
         [PStr ''cat'', PStr ''desc'']),
        (Exec, ''INSERT INTO components (name, category_id, manufacturer_id, model, price) VALUES ($1, $2, $3, $4, $5)'',
         [PStr ''nm'', PInt 4, PStr ''abc'', PStr ''m'', PStr ''10''])]"
  by (simp add: numericColumn_def Atoi_def isDigit_def insertRelatedData_def readLine_def
        relatedTables_def relationTables_def Split_def relationSep_def splitFrom.simps tables_def
        zeroTable_def relatedLoop.simps relatedRecord_def firstCheck_def secondCheck_def
        MatchString_def asciiAllowed_def insertReturningStatement_def insertStatement_def
        itoa.simps digitChar_def dbQueryRow_def dbExec_def answer_def foreignKeyColumn_def say_def
        Let_def)

section \<open>Inputs that fail validation\<close>

text \<open>
  \<open>readLine\<close> and the two menus in terms of the next line and of the world they leave.
\<close>

lemma skipLines_fields [simp]:
  "stdin (skipLines k w) = drop k (stdin w)" "db (skipLines k w) = db w" "out (skipLines k w) = out w"
  by (simp_all add: skipLines_def)




































section \<open>The menu loop and the input\<close>






















lemma Atoi_Nil [simp]: "Atoi [] = None"
  by (simp add: Atoi_def)














text \<open>
  The table view sends its statement a second time and drops the error of that call.
  When the second call fails after the first one succeeded, the deferred \<open>Close\<close> on
  the nil result panics as the view returns: the grid is printed and the process ends.
\<close>

lemma view_second_query_fails:
  "viewTable \<lparr>stdin = [''1''], db = [DbRows [''id''] [], DbError], out = []\<rparr>
   = Some (Panicked,
           \<lparr>stdin = [], db = [],
            out = [DbCall Query ''SELECT * FROM categories ORDER BY id'' [],
                   DbCall Query ''SELECT * FROM categories ORDER BY id'' [],
                   Println (CHR 0x0A # ''id''), Println ''--'', Found 0]\<rparr>)"
  by (subst viewTable.simps)
     (simp add: readLine_def Atoi_def isDigit_def tables_def dbQuery_def answer_def say_def
        headerWidths_def widen_def printGrid_def headerLine_def dividerLine_def padAll_def
        padRight_def Repeat_def Let_def)

section \<open>Statements and their parameters\<close>

lemma selectTable_range:
  "selectTable w = (r, w') \<Longrightarrow> r \<noteq> - 1 \<Longrightarrow> tables ! nat r \<in> set tables"
  by (auto simp: selectTable_def split: prod.splits option.splits if_splits intro!: nth_mem)

lemma boundStatement_filter:
  assumes "t \<in> set tables" "set cols \<subseteq> set (Columns t)" "length vals = length cols"
  shows "boundStatement (k, specFilter (Name t) cols, vals)"
  using assms pc_specFilter[OF assms(1,2)]
  by (auto simp: boundStatement_def catalogStatements_def)

lemma boundStatement_update:
  assumes "t \<in> set tables" "col \<in> set (Columns t)" "col \<noteq> ''id''" "1 \<le> n" "length args = n + 1"
  shows "boundStatement (k, specUpdate (Name t) col n, args)"
  using assms pc_specUpdate[OF assms(1,2,4)]
  by (auto simp: boundStatement_def catalogStatements_def)

lemma boundStatement_insert:
  assumes "t \<in> set tables" "length args = length (tl (Columns t))"
  shows "boundStatement (k, specInsert (Name t) (tl (Columns t)), args)"
    "boundStatement (k, specInsert (Name t) (tl (Columns t)) @ '' RETURNING id'', args)"
proof -
  have "set (tl (Columns t)) \<subseteq> set (Columns t)" by (rule set_tl_subset)
  from pc_specInsert[OF assms(1) this] assms
  show "boundStatement (k, specInsert (Name t) (tl (Columns t)), args)"
    "boundStatement (k, specInsert (Name t) (tl (Columns t)) @ '' RETURNING id'', args)"
    by (auto simp: boundStatement_def catalogStatements_def)
qed

lemma filterLoop_shape:
  "filterLoop i n t c v w = (r, w') \<Longrightarrow>
     sent (out w') = sent (out w)
     \<and> (\<forall>c' v'. r = Some (c', v') \<longrightarrow>
           (\<exists>cols. set cols \<subseteq> set (Columns t) \<and> length cols = n - i
              \<and> c' = c @ map (\<lambda>(col, j). col @ '' = $'' @ itoa j) (zip cols [i + 1..<n + 1])
              \<and> length v' = length v + (n - i)))"
proof (induction "n - i" arbitrary: i c v w)
  case 0
  then show ?case by (subst (asm) filterLoop.simps) auto
next
  case (Suc d)
  then have lt: "i < n" and d: "d = n - (i + 1)" by simp_all
  obtain k w1 where s: "selectColumn t w = (k, w1)" by (cases "selectColumn t w")
  note sf = selectColumn_fields[OF s]
  let ?col = "Columns t ! nat k"
  obtain l w2 where rl: "readLine (say (Prompt ?col) w1) = (l, w2)"
    by (cases "readLine (say (Prompt ?col) w1)")
  note f = readLine_fields[OF rl]
  have o2: "sent (out w2) = sent (out w)" using f sf by simp
  show ?case
  proof (cases "k = - 1 \<or> filterCheck l \<noteq> None")
    case True
    with Suc.prems lt s rl have "r = None \<and> (w' = w1 \<or> (\<exists>e. w' = say (Report e) w2))"
      by (subst (asm) filterLoop.simps) (auto simp: Let_def split: option.splits if_splits)
    with sf o2 show ?thesis by auto
  next
    case False
    with Suc.prems lt s rl have rec:
      "filterLoop (i + 1) n t (c @ [?col @ '' = $'' @ itoa (i + 1)]) (v @ [PStr l]) w2 = (r, w')"
      by (subst (asm) filterLoop.simps) (auto simp: Let_def split: option.splits if_splits)
    note IH = Suc.hyps(1)[OF d rec]
    have colmem: "?col \<in> set (Columns t)" using sf(4) False by (intro nth_mem) auto
    have upt: "[i + 1..<n + 1] = (i + 1) # [i + 1 + 1..<n + 1]"
      using lt by (simp add: upt_conv_Cons)
    show ?thesis
    proof (intro conjI allI impI)
      show "sent (out w') = sent (out w)" using IH o2 by simp
    next
      fix c' v' assume "r = Some (c', v')"
      with IH obtain cols where cols: "set cols \<subseteq> set (Columns t)" "length cols = n - (i + 1)"
        "c' = (c @ [?col @ '' = $'' @ itoa (i + 1)])
                @ map (\<lambda>(col, j). col @ '' = $'' @ itoa j) (zip cols [i + 1 + 1..<n + 1])"
        "length v' = length (v @ [PStr l]) + (n - (i + 1))" by blast
      have "set (?col # cols) \<subseteq> set (Columns t) \<and> length (?col # cols) = n - i
              \<and> c' = c @ map (\<lambda>(col, j). col @ '' = $'' @ itoa j) (zip (?col # cols) [i + 1..<n + 1])
              \<and> length v' = length v + (n - i)"
        using cols colmem lt by (simp only: upt) auto
      then show "\<exists>cols. set cols \<subseteq> set (Columns t) \<and> length cols = n - i
              \<and> c' = c @ map (\<lambda>(col, j). col @ '' = $'' @ itoa j) (zip cols [i + 1..<n + 1])
              \<and> length v' = length v + (n - i)" by blast
    qed
  qed
qed

lemma filterData_bound:
  "\<exists>new. sent (out (filterData w)) = sent (out w) @ new \<and> list_all boundStatement new"
proof -
  obtain l w1 where r: "readLine w = (l, w1)" by (cases "readLine w")
  note f1 = readLine_fields[OF r]
  obtain k w2 where st: "selectTable w1 = (k, w2)" by (cases "selectTable w1")
  note f2 = selectTable_fields[OF st]
  have o2: "sent (out w2) = sent (out w)" using f1 f2 by simp
  have nothing: "sent (out w') = sent (out w) \<Longrightarrow>
      \<exists>new. sent (out w') = sent (out w) @ new \<and> list_all boundStatement new" for w' :: world
    by simp
  show ?thesis
  proof (cases "Atoi l")
    case None
    then have "sent (out (filterData w)) = sent (out w)" using f1 by (simp add: filterData_def r)
    then show ?thesis by simp
  next
    case (Some filterCount)
    let ?t = "tables ! nat k"
    obtain res w3 where fl: "filterLoop 0 (nat filterCount) ?t [] [] w2 = (res, w3)"
      by (cases "filterLoop 0 (nat filterCount) ?t [] [] w2")
    note sh = filterLoop_shape[OF fl]
    have o3: "sent (out w3) = sent (out w)" using sh o2 by simp
    show ?thesis
    proof (cases "filterCount < 1 \<or> k = - 1 \<or> res = None")
      case True
      then have "sent (out (filterData w)) = sent (out w)"
        using f1 o2 o3 Some by (auto simp: filterData_def r st fl)
      then show ?thesis by simp
    next
      case False
      then obtain conds vals where res: "res = Some (conds, vals)" by auto
      with sh obtain cols where cols: "set cols \<subseteq> set (Columns ?t)" "length cols = nat filterCount"
        "conds = map (\<lambda>(col, j). col @ '' = $'' @ itoa j) (zip cols [1..<nat filterCount + 1])"
        "length vals = nat filterCount" by auto
      have tm: "?t \<in> set tables" using selectTable_range[OF st] False by simp
      have q: "''SELECT * FROM '' @ Name ?t @ '' WHERE '' @ Join conds '' AND '' @ '' ORDER BY id''
               = specFilter (Name ?t) cols"
        unfolding specFilter_def cols(3) cols(2) by simp
      obtain r4 w4 where dq: "dbQuery (specFilter (Name ?t) cols) vals w3 = (r4, w4)"
        by (cases "dbQuery (specFilter (Name ?t) cols) vals w3")
      note f4 = dbQuery_fields[OF dq]
      have "sent (out (filterData w)) = sent (out w4)"
        using False Some res
        by (simp add: filterData_def r st fl q[simplified] dq printGrid_out
              split: option.splits prod.splits)
      also have "\<dots> = sent (out w) @ [(Query, specFilter (Name ?t) cols, vals)]"
        using f4 o3 by simp
      finally show ?thesis
        using boundStatement_filter[OF tm cols(1), of vals Query] cols by simp
    qed
  qed
qed


lemma readIds_shape:
  "readIds i n ids w = (r, w') \<Longrightarrow>
     sent (out w') = sent (out w)
     \<and> (\<forall>ids'. r = Some ids' \<longrightarrow> length ids' = length ids + (n - i))"
proof (induction "n - i" arbitrary: i ids w)
  case 0
  then show ?case by (subst (asm) readIds.simps) auto
next
  case (Suc d)
  then have lt: "i < n" and d: "d = n - (i + 1)" by simp_all
  obtain l w1 where rl: "readLine (say (AskId (i + 1)) w) = (l, w1)"
    by (cases "readLine (say (AskId (i + 1)) w)")
  note f = readLine_fields[OF rl]
  have o1: "sent (out w1) = sent (out w)" using f by simp
  show ?case
  proof (cases "Atoi l = None")
    case True
    with Suc.prems lt rl have "r = None \<and> w' = say (Report IdNotANumber) w1"
      by (subst (asm) readIds.simps) auto
    with o1 show ?thesis by simp
  next
    case False
    with Suc.prems lt rl have "readIds (i + 1) n (ids @ [l]) w1 = (r, w')"
      by (subst (asm) readIds.simps) auto
    from Suc.hyps(1)[OF d this] o1 lt show ?thesis by auto
  qed
qed

lemma updateData_bound:
  "\<exists>new. sent (out (updateData w)) = sent (out w) @ new \<and> list_all boundStatement new"
proof -
  obtain l w1 where r: "readLine w = (l, w1)" by (cases "readLine w")
  note f1 = readLine_fields[OF r]
  obtain k w2 where st: "selectTable w1 = (k, w2)" by (cases "selectTable w1")
  note f2 = selectTable_fields[OF st]
  have o2: "sent (out w2) = sent (out w)" using f1 f2 by simp
  show ?thesis
  proof (cases "Atoi l")
    case None
    then have "sent (out (updateData w)) = sent (out w)" using f1 by (simp add: updateData_def r)
    then show ?thesis by simp
  next
    case (Some updateCount)
    let ?t = "tables ! nat k"
    let ?updatable = "filter (\<lambda>column. column \<noteq> ''id'') (Columns ?t)"
    obtain res w3 where ri: "readIds 0 (nat updateCount) [] w2 = (res, w3)"
      by (cases "readIds 0 (nat updateCount) [] w2")
    note sh = readIds_shape[OF ri]
    have o3: "sent (out w3) = sent (out w)" using sh o2 by simp
    obtain l4 w4 where r4: "readLine w3 = (l4, w4)" by (cases "readLine w3")
    note f4 = readLine_fields[OF r4]
    have o4: "sent (out w4) = sent (out w)" using f4 o3 by simp
    show ?thesis
    proof (cases "Atoi l4")
      case None
      then have "sent (out (updateData w)) = sent (out w)"
        using f1 o2 o3 o4 Some
        by (auto simp: updateData_def r st ri r4 Let_def split: option.splits)
      then show ?thesis by simp
    next
      case c: (Some columnChoice)
      let ?col = "?updatable ! nat (columnChoice - 1)"
      obtain l5 w5 where r5: "readLine (say (Prompt ?col) w4) = (l5, w5)"
        by (cases "readLine (say (Prompt ?col) w4)")
      note f5 = readLine_fields[OF r5]
      have o5: "sent (out w5) = sent (out w)" using f5 o4 by simp
      show ?thesis
      proof (cases "updateCount < 1 \<or> k = - 1 \<or> ?updatable = [] \<or> res = None
                     \<or> columnChoice < 1 \<or> columnChoice > int (length ?updatable)
                     \<or> updateCheck ?col l5 \<noteq> None")
        case True
        then have "sent (out (updateData w)) = sent (out w)"
          using f1 o2 o3 o4 o5 Some c
          by (auto simp: updateData_def r st ri r4 r5 Let_def split: option.splits)
        then show ?thesis by simp
      next
        case False
        then obtain ids where ids: "res = Some ids" by auto
        with sh have len: "length ids = nat updateCount" by simp
        with False have ne: "ids \<noteq> []" and uc: "updateCount = int (length ids)" by auto
        have tm: "?t \<in> set tables" using selectTable_range[OF st] False by simp
        have cm: "?col \<in> set ?updatable" using False by (intro nth_mem) auto
        then have col: "?col \<in> set (Columns ?t)" "?col \<noteq> ''id''" by auto
        let ?q = "specUpdate (Name ?t) ?col (length ids)"
        let ?args = "PStr l5 # map PStr ids"
        have us: "updateStatement ?t ?col l5 updateCount ids = (?q, ?args)"
          using updateStatement_spec[OF ne, of ?t ?col l5] uc by simp
        obtain r6 w6 where e: "dbExec ?q ?args w5 = (r6, w6)" by (cases "dbExec ?q ?args w5")
        note f6 = dbExec_fields[OF e]
        have "sent (out (updateData w)) = sent (out w6)"
          using False Some c ids
          by (simp add: updateData_def r st ri r4 r5 us e Let_def split: option.splits)
        also have "\<dots> = sent (out w) @ [(Exec, ?q, ?args)]" using f6 o5 by simp
        finally show ?thesis
          using boundStatement_update[OF tm col, of "length ids" ?args Exec] ne
          by (cases ids) simp_all
      qed
    qed
  qed
qed


lemma readValues_shape:
  "readValues cols vals w = (r, w') \<Longrightarrow>
     sent (out w') = sent (out w)
     \<and> (\<forall>vals'. r = Some vals' \<longrightarrow> length vals' = length vals + length cols)"
proof (induction cols arbitrary: vals w)
  case Nil
  then show ?case by auto
next
  case (Cons c cols)
  obtain l w1 where rl: "readLine (say (Prompt c) w) = (l, w1)"
    by (cases "readLine (say (Prompt c) w)")
  note f = readLine_fields[OF rl]
  have o1: "sent (out w1) = sent (out w)" using f by simp
  show ?case
  proof (cases "insertCheck c l")
    case None
    with Cons.prems rl have "readValues cols (vals @ [PStr l]) w1 = (r, w')" by simp
    from Cons.IH[OF this] o1 show ?thesis by auto
  next
    case (Some e)
    with Cons.prems rl have "r = None \<and> w' = say (Report e) w1" by simp
    with o1 show ?thesis by simp
  qed
qed

lemma readFirst_sent:
  "readFirst cols vals w = (r, w') \<Longrightarrow> sent (out w') = sent (out w)"
proof (induction cols arbitrary: vals w)
  case Nil
  then show ?case by auto
next
  case (Cons c cols)
  obtain l w1 where rl: "readLine (say (Prompt c) w) = (l, w1)"
    by (cases "readLine (say (Prompt c) w)")
  note f = readLine_fields[OF rl]
  have o1: "sent (out w1) = sent (out w)" using f by simp
  show ?case
  proof (cases "firstCheck c l")
    case None
    with Cons.prems rl have "readFirst cols (vals @ [PStr l]) w1 = (r, w')" by simp
    from Cons.IH[OF this] o1 show ?thesis by auto
  next
    case (Some e)
    with Cons.prems rl have "w' = say (Report e) w1" by simp
    with o1 show ?thesis by simp
  qed
qed

lemma readSecond_sent:
  "readSecond fk n cols vals w = (r, w') \<Longrightarrow> sent (out w') = sent (out w)"
proof (induction cols arbitrary: vals w)
  case Nil
  then show ?case by auto
next
  case (Cons c cols)
  show ?case
  proof (cases "c = fk")
    case True
    with Cons.prems have "readSecond fk n cols (vals @ [PInt n]) (say (AutoSet c n) w) = (r, w')"
      by simp
    from Cons.IH[OF this] show ?thesis by simp
  next
    case False
    obtain l w1 where rl: "readLine (say (Prompt c) w) = (l, w1)"
      by (cases "readLine (say (Prompt c) w)")
    note f = readLine_fields[OF rl]
    have o1: "sent (out w1) = sent (out w)" using f by simp
    show ?thesis
    proof (cases "secondCheck c l")
      case None
      with Cons.prems rl False have "readSecond fk n cols (vals @ [PStr l]) w1 = (r, w')" by simp
      from Cons.IH[OF this] o1 show ?thesis by auto
    next
      case (Some e)
      with Cons.prems rl False have "w' = say (Report e) w1" by simp
      with o1 show ?thesis by simp
    qed
  qed
qed

lemma specSecondParams_length [simp]: "length (specSecondParams fk n cols typed) = length cols"
  by (induction cols arbitrary: typed) simp_all

lemma insertLoop_bound:
  assumes "insertLoop i n t (tl (Columns t)) w = (ok, w')" "t \<in> set tables"
  shows "\<exists>new. sent (out w') = sent (out w) @ new \<and> list_all boundStatement new"
  using assms(1)
proof (induction "n - i" arbitrary: i w)
  case 0
  then show ?case by (subst (asm) insertLoop.simps) auto
next
  case (Suc d)
  let ?cols = "tl (Columns t)"
  from Suc have lt: "i < n" and d: "d = n - (i + 1)" by simp_all
  obtain vs w1 where a: "readValues ?cols [] w = (vs, w1)" by (cases "readValues ?cols [] w")
  note sh = readValues_shape[OF a]
  show ?case
  proof (cases vs)
    case None
    with Suc.prems lt a have "w' = w1" by (subst (asm) insertLoop.simps) auto
    with sh show ?thesis by simp
  next
    case (Some vals)
    let ?q = "specInsert (Name t) ?cols"
    obtain r2 w2 where e: "dbExec ?q vals w1 = (r2, w2)" by (cases "dbExec ?q vals w1")
    note f2 = dbExec_fields[OF e]
    have o2: "sent (out w2) = sent (out w) @ [(Exec, ?q, vals)]" using f2 sh by simp
    have b: "boundStatement (Exec, ?q, vals)"
      using boundStatement_insert(1)[OF assms(2), of vals Exec] sh Some by simp
    show ?thesis
    proof (cases r2)
      case None
      with Suc.prems lt a Some e have "w' = say (Report ExecutionError) w2"
        by (subst (asm) insertLoop.simps) (auto simp: insertStatement_spec)
      with o2 b show ?thesis by simp
    next
      case (Some m)
      with Suc.prems lt a \<open>vs = Some vals\<close> e have
        "insertLoop (i + 1) n t ?cols (say (Added (i + 1)) w2) = (ok, w')"
        by (subst (asm) insertLoop.simps) (auto simp: insertStatement_spec)
      from Suc.hyps(1)[OF d this] obtain new where
        "sent (out w') = sent (out (say (Added (i + 1)) w2)) @ new" "list_all boundStatement new"
        by blast
      with o2 b have "sent (out w') = sent (out w) @ ((Exec, ?q, vals) # new)
                       \<and> list_all boundStatement ((Exec, ?q, vals) # new)" by simp
      then show ?thesis by blast
    qed
  qed
qed

lemma insertData_bound:
  "\<exists>new. sent (out (insertData w)) = sent (out w) @ new \<and> list_all boundStatement new"
proof -
  obtain l w1 where r: "readLine w = (l, w1)" by (cases "readLine w")
  note f1 = readLine_fields[OF r]
  obtain k w2 where st: "selectTable w1 = (k, w2)" by (cases "selectTable w1")
  note f2 = selectTable_fields[OF st]
  have o2: "sent (out w2) = sent (out w)" using f1 f2 by simp
  show ?thesis
  proof (cases "Atoi l")
    case None
    then have "sent (out (insertData w)) = sent (out w)" using f1 by (simp add: insertData_def r)
    then show ?thesis by simp
  next
    case (Some recordCount)
    let ?t = "tables ! nat k"
    show ?thesis
    proof (cases "recordCount < 1 \<or> k = - 1")
      case True
      then have "sent (out (insertData w)) = sent (out w)"
        using f1 o2 Some by (auto simp: insertData_def r st)
      then show ?thesis by simp
    next
      case False
      have tm: "?t \<in> set tables" using selectTable_range[OF st] False by simp
      obtain ok w3 where il: "insertLoop 0 (nat recordCount) ?t (tl (Columns ?t)) w2 = (ok, w3)"
        by (cases "insertLoop 0 (nat recordCount) ?t (tl (Columns ?t)) w2")
      from insertLoop_bound[OF il tm] obtain new where
        n: "sent (out w3) = sent (out w2) @ new" "list_all boundStatement new" by blast
      have "sent (out (insertData w)) = sent (out w3)"
        using False Some by (simp add: insertData_def r st il Let_def)
      with n o2 show ?thesis by simp
    qed
  qed
qed

lemma relatedRecord_bound:
  assumes "relatedRecord t1 t2 w = (ok, w')" "t1 \<in> set tables" "t2 \<in> set tables"
  shows "\<exists>new. sent (out w') = sent (out w) @ new \<and> list_all boundStatement new"
proof -
  let ?cols1 = "tl (Columns t1)" and ?cols2 = "tl (Columns t2)"
  obtain v1 w1 where rf: "readFirst ?cols1 [] w = (v1, w1)" by (cases "readFirst ?cols1 [] w")
  note o1 = readFirst_sent[OF rf]
  show ?thesis
  proof (cases v1)
    case None
    with assms(1) rf have "w' = w1" by (simp add: relatedRecord_def Let_def)
    with o1 show ?thesis by simp
  next
    case v: (Some values1)
    from readFirst_ok[OF rf[unfolded v]] have l1: "length values1 = length ?cols1" by auto
    let ?q1 = "specInsert (Name t1) ?cols1 @ '' RETURNING id''"
    obtain r2 w2 where q: "dbQueryRow ?q1 values1 w1 = (r2, w2)"
      by (cases "dbQueryRow ?q1 values1 w1")
    note f2 = dbQueryRow_fields[OF q]
    have o2: "sent (out w2) = sent (out w) @ [(QueryRow, ?q1, values1)]" using f2 o1 by simp
    have b1: "boundStatement (QueryRow, ?q1, values1)"
      using boundStatement_insert(2)[OF assms(2), of values1 QueryRow] l1 by simp
    show ?thesis
    proof (cases r2)
      case None
      with assms(1) rf v q have "w' = say (Report ExecutionError) w2"
        by (simp add: relatedRecord_def Let_def insertReturningStatement_spec)
      with o2 b1 show ?thesis by simp
    next
      case n: (Some insertedID)
      let ?fk = "foreignKeyColumn t1 t2"
      let ?w4 = "say (ForeignKey (Name t2) ?fk insertedID) (say (Inserted (Name t1) insertedID) w2)"
      obtain v2 w5 where rs: "readSecond ?fk insertedID ?cols2 [] ?w4 = (v2, w5)"
        by (cases "readSecond ?fk insertedID ?cols2 [] ?w4")
      have o5: "sent (out w5) = sent (out w) @ [(QueryRow, ?q1, values1)]"
        using readSecond_sent[OF rs] o2 by simp
      show ?thesis
      proof (cases v2)
        case None
        with assms(1) rf v q n rs have "w' = w5"
          by (simp add: relatedRecord_def Let_def insertReturningStatement_spec)
        with o5 b1 show ?thesis by simp
      next
        case v2: (Some values2)
        from readSecond_ok[OF rs[unfolded v2]] have l2: "length values2 = length ?cols2" by auto
        let ?q2 = "specInsert (Name t2) ?cols2"
        obtain r6 w6 where e: "dbExec ?q2 values2 w5 = (r6, w6)" by (cases "dbExec ?q2 values2 w5")
        note f6 = dbExec_fields[OF e]
        have b2: "boundStatement (Exec, ?q2, values2)"
          using boundStatement_insert(1)[OF assms(3), of values2 Exec] l2 by simp
        from assms(1) rf v q n rs v2 e have "sent (out w') = sent (out w6)"
          by (auto simp: relatedRecord_def Let_def insertReturningStatement_spec insertStatement_spec
                split: option.splits)
        with f6 o5 have "sent (out w') = sent (out w) @ [(QueryRow, ?q1, values1), (Exec, ?q2, values2)]"
          by simp
        with b1 b2 show ?thesis by simp
      qed
    qed
  qed
qed

lemma relatedLoop_bound:
  assumes "relatedLoop i n t1 t2 w = (ok, w')" "t1 \<in> set tables" "t2 \<in> set tables"
  shows "\<exists>new. sent (out w') = sent (out w) @ new \<and> list_all boundStatement new"
  using assms(1)
proof (induction "n - i" arbitrary: i w)
  case 0
  then show ?case by (subst (asm) relatedLoop.simps) auto
next
  case (Suc d)
  then have lt: "i < n" and d: "d = n - (i + 1)" by simp_all
  obtain fin w1 where a: "relatedRecord t1 t2 w = (fin, w1)" by (cases "relatedRecord t1 t2 w")
  from relatedRecord_bound[OF a assms(2,3)] obtain new1 where
    n1: "sent (out w1) = sent (out w) @ new1" "list_all boundStatement new1" by blast
  show ?case
  proof (cases fin)
    case False
    with Suc.prems lt a have "w' = w1" by (subst (asm) relatedLoop.simps) auto
    with n1 show ?thesis by blast
  next
    case True
    with Suc.prems lt a have "relatedLoop (i + 1) n t1 t2 w1 = (ok, w')"
      by (subst (asm) relatedLoop.simps) auto
    from Suc.hyps(1)[OF d this] obtain new2 where
      "sent (out w') = sent (out w1) @ new2" "list_all boundStatement new2" by blast
    with n1 have "sent (out w') = sent (out w) @ (new1 @ new2) \<and> list_all boundStatement (new1 @ new2)"
      by simp
    then show ?thesis by blast
  qed
qed

lemma relation_choice:
  assumes "1 \<le> choice" "choice \<le> int (length relatedTables)"
  shows "relatedTables ! nat (choice - 1) \<in> set relatedTables"
  using assms by (intro nth_mem) linarith

lemma insertRelatedData_bound:
  "\<exists>new. sent (out (insertRelatedData w)) = sent (out w) @ new \<and> list_all boundStatement new"
proof -
  obtain l w1 where r: "readLine w = (l, w1)" by (cases "readLine w")
  note f1 = readLine_fields[OF r]
  obtain l2 w2 where r2: "readLine w1 = (l2, w2)" by (cases "readLine w1")
  note f2 = readLine_fields[OF r2]
  have o2: "sent (out w2) = sent (out w)" using f1 f2 by simp
  show ?thesis
  proof (cases "Atoi l")
    case None
    then have "sent (out (insertRelatedData w)) = sent (out w)"
      using f1 by (simp add: insertRelatedData_def r)
    then show ?thesis by simp
  next
    case (Some recordCount)
    show ?thesis
    proof (cases "Atoi l2")
      case None
      then have "sent (out (insertRelatedData w)) = sent (out w)"
        using f1 o2 Some by (simp add: insertRelatedData_def r r2)
      then show ?thesis by simp
    next
      case c: (Some choice)
      let ?rel = "relatedTables ! nat (choice - 1)"
      show ?thesis
      proof (cases "recordCount < 1 \<or> choice < 1 \<or> choice > int (length relatedTables)
                     \<or> relationTables ?rel = None")
        case True
        then have "sent (out (insertRelatedData w)) = sent (out w)"
          using f1 o2 Some c by (auto simp: insertRelatedData_def r r2)
        then show ?thesis by simp
      next
        case False
        then obtain t1 t2 where tt: "relationTables ?rel = Some (t1, t2)" by auto
        have rm: "?rel \<in> set relatedTables" using False by (intro relation_choice) auto
        note tm = relation_foreign_key(2,3)[OF rm tt]
        obtain ok w3 where rl: "relatedLoop 0 (nat recordCount) t1 t2 w2 = (ok, w3)"
          by (cases "relatedLoop 0 (nat recordCount) t1 t2 w2")
        from relatedLoop_bound[OF rl tm] obtain new where
          n: "sent (out w3) = sent (out w2) @ new" "list_all boundStatement new" by blast
        have "sent (out (insertRelatedData w)) = sent (out w3)"
          using False Some c tt by (simp add: insertRelatedData_def r r2 rl)
        with n o2 show ?thesis by simp
      qed
    qed
  qed
qed

text \<open>
  Claim C1. Whatever the operator types and whatever the database answers, every
  statement that Filter, Update, Insert and InsertRelated send is one of the statements
  built from fixed text, placeholders and the names of the catalog, and it is sent with
  exactly as many parameters as it has placeholders. The values typed by the operator
  (and the id returned by the first insert) only travel in the parameter list.
\<close>

theorem statements_bound:
  "(\<exists>new. sent (out (filterData w)) = sent (out w) @ new \<and> list_all boundStatement new)
   \<and> (\<exists>new. sent (out (updateData w)) = sent (out w) @ new \<and> list_all boundStatement new)
   \<and> (\<exists>new. sent (out (insertData w)) = sent (out w) @ new \<and> list_all boundStatement new)
   \<and> (\<exists>new. sent (out (insertRelatedData w)) = sent (out w) @ new \<and> list_all boundStatement new)"
  using filterData_bound[of w] updateData_bound[of w] insertData_bound[of w]
    insertRelatedData_bound[of w]
  by blast


theorem statements_bound_witness:
  "boundStatement (Query, ''SELECT * FROM components WHERE price = $1 AND name = $2 ORDER BY id'',
                   [PStr ''abc'', PStr ''x y''])
   \<and> boundStatement (Exec, ''UPDATE components SET price = $1 WHERE id IN ($2, $3)'',
                      [PStr ''10'', PStr ''6'', PStr ''7''])
   \<and> boundStatement (Exec, ''INSERT INTO stock (component_id, quantity, warehouse_location) VALUES ($1, $2, $3)'',
                      [PStr ''6'', PStr ''7'', PStr ''A-1''])
   \<and> boundStatement (QueryRow, ''INSERT INTO categories (name, description) VALUES ($1, $2) RETURNING id'',
                      [PStr ''cat'', PStr ''desc''])
   \<and> boundStatement (Exec, ''INSERT INTO components (name, category_id, manufacturer_id, model, price) VALUES ($1, $2, $3, $4, $5)'',
                      [PStr ''nm'', PInt 7, PStr ''2'', PStr ''mod'', PStr ''12''])"
proof -
  let ?f = "\<lparr>stdin = [''2'', ''3'', ''6'', ''abc'', ''2'', ''x y''], db = [], out = []\<rparr>"
  let ?u = "\<lparr>stdin = [''2'', ''3'', ''6'', ''7'', ''5'', ''10''], db = [], out = []\<rparr>"
  let ?i = "\<lparr>stdin = [''1'', ''4'', ''6'', ''7'', ''A-1''], db = [], out = []\<rparr>"
  let ?r = "\<lparr>stdin = [''1'', ''2'', ''cat'', ''desc'', ''nm'', ''2'', ''mod'', ''12''],
             db = [DbId 7, DbAffected 1], out = []\<rparr>"
  have f: "sent (out (filterData ?f))
           = [(Query, ''SELECT * FROM components WHERE price = $1 AND name = $2 ORDER BY id'',
               [PStr ''abc'', PStr ''x y''])]"
    by (simp add: filterData_def readLine_def Atoi_def isDigit_def selectTable_def tables_def
          filterLoop.simps selectColumn_def filterCheck_def MatchString_def asciiAllowed_def
          itoa.simps digitChar_def dbQuery_def answer_def say_def)
  have u: "sent (out (updateData ?u))
           = [(Exec, ''UPDATE components SET price = $1 WHERE id IN ($2, $3)'',
               [PStr ''10'', PStr ''6'', PStr ''7''])]"
    by (simp add: updateData_def readLine_def Atoi_def isDigit_def selectTable_def tables_def
          readIds.simps updateCheck_def MatchString_def asciiAllowed_def updateStatement_def
          itoa.simps digitChar_def dbExec_def answer_def say_def)
  have i: "sent (out (insertData ?i))
           = [(Exec, ''INSERT INTO stock (component_id, quantity, warehouse_location) VALUES ($1, $2, $3)'',
               [PStr ''6'', PStr ''7'', PStr ''A-1''])]"
    by (simp add: insertData_def readLine_def Atoi_def isDigit_def selectTable_def tables_def
          insertLoop.simps insertCheck_def MatchString_def asciiAllowed_def insertStatement_def
          itoa.simps digitChar_def dbExec_def answer_def say_def)
  have r: "sent (out (insertRelatedData ?r))
           = [(QueryRow, ''INSERT INTO categories (name, description) VALUES ($1, $2) RETURNING id'',
               [PStr ''cat'', PStr ''desc'']),
              (Exec, ''INSERT INTO components (name, category_id, manufacturer_id, model, price) VALUES ($1, $2, $3, $4, $5)'',
               [PStr ''nm'', PInt 7, PStr ''2'', PStr ''mod'', PStr ''12''])]"
    by (simp add: insertRelatedData_def readLine_def Atoi_def isDigit_def relatedTables_def
          relationTables_def Split_def relationSep_def splitFrom.simps tables_def zeroTable_def
          relatedLoop.simps relatedRecord_def firstCheck_def secondCheck_def MatchString_def
          asciiAllowed_def insertReturningStatement_def insertStatement_def itoa.simps digitChar_def
          dbQueryRow_def dbExec_def answer_def foreignKeyColumn_def say_def Let_def)
  have "\<exists>new. [c] = [] @ new \<and> list_all boundStatement new \<Longrightarrow> boundStatement c" for c
    by simp
  note one = this
  have two: "\<exists>new. [c, d] = [] @ new \<and> list_all boundStatement new
               \<Longrightarrow> boundStatement c \<and> boundStatement d" for c d
    by simp
  from statements_bound[of ?f] have "\<exists>new. sent (out (filterData ?f)) = sent (out ?f) @ new
      \<and> list_all boundStatement new" by blast
  then have bf: "boundStatement (Query, ''SELECT * FROM components WHERE price = $1 AND name = $2 ORDER BY id'',
                   [PStr ''abc'', PStr ''x y''])"
    unfolding f by (intro one) simp
  from statements_bound[of ?u] have "\<exists>new. sent (out (updateData ?u)) = sent (out ?u) @ new
      \<and> list_all boundStatement new" by blast
  then have bu: "boundStatement (Exec, ''UPDATE components SET price = $1 WHERE id IN ($2, $3)'',
                      [PStr ''10'', PStr ''6'', PStr ''7''])"
    unfolding u by (intro one) simp
  from statements_bound[of ?i] have "\<exists>new. sent (out (insertData ?i)) = sent (out ?i) @ new
      \<and> list_all boundStatement new" by blast
  then have bi: "boundStatement (Exec, ''INSERT INTO stock (component_id, quantity, warehouse_location) VALUES ($1, $2, $3)'',
                      [PStr ''6'', PStr ''7'', PStr ''A-1''])"
    unfolding i by (intro one) simp
  from statements_bound[of ?r] have "\<exists>new. sent (out (insertRelatedData ?r)) = sent (out ?r) @ new
      \<and> list_all boundStatement new" by blast
  then have br: "boundStatement (QueryRow, ''INSERT INTO categories (name, description) VALUES ($1, $2) RETURNING id'',
                      [PStr ''cat'', PStr ''desc''])
   \<and> boundStatement (Exec, ''INSERT INTO components (name, category_id, manufacturer_id, model, price) VALUES ($1, $2, $3, $4, $5)'',
                      [PStr ''nm'', PInt 7, PStr ''2'', PStr ''mod'', PStr ''12''])"
    unfolding r by (intro two) simp
  from bf bu bi br show ?thesis by blast
qed

section \<open>The relation resolver on the configured relations\<close>

text \<open>
  Claim C3. For each of the three configured relations, taken from \<open>relatedTables\<close> as
  the operation takes them (split at the separator, the two tables looked up in the
  catalog), the resolver returns \<open>component_id\<close> for components and stock,
  \<open>category_id\<close> for categories and components, and \<open>manufacturer_id\<close> for
  manufacturers and components.
\<close>

theorem resolver_configured_relations:
  "map (\<lambda>relation.
          map_option (\<lambda>(table1, table2). (Name table1, Name table2, foreignKeyColumn table1 table2))
            (relationTables relation))
     relatedTables
   = [Some (''components'', ''stock'', ''component_id''),
      Some (''categories'', ''components'', ''category_id''),
      Some (''manufacturers'', ''components'', ''manufacturer_id'')]"
  by (simp add: relatedTables_def relationTables_def Split_def relationSep_def splitFrom.simps
        tables_def zeroTable_def foreignKeyColumn_def)

text \<open>
  Claim C9. For each of the three configured relations the explicit rules of the
  resolver find a column: the first loop leaves a non-empty \<open>foreignKeyColumn\<close>, so the
  fallback loop, which takes the first column that is not \<open>id\<close>, is not entered.
\<close>

theorem resolver_fallback_not_taken:
  "list_all (\<lambda>relation.
       case relationTables relation of
         None \<Rightarrow> False
       | Some (table1, table2) \<Rightarrow>
           explicitForeignKey table1 table2 (Columns table2) \<noteq> []
           \<and> foreignKeyColumn table1 table2 = explicitForeignKey table1 table2 (Columns table2))
     relatedTables"
  by (simp add: relatedTables_def relationTables_def Split_def relationSep_def splitFrom.simps
        tables_def zeroTable_def foreignKeyColumn_def)

end
